theory Spec2Isabelle
  imports Main "HOL-Library.Word"
begin

unbundle bit_operations_syntax

section \<open>JavaScript values, errors and strings\<close>

text \<open>
  The program is JavaScript (Lab 5: \<^verbatim>\<open>coin.js\<close>, \<^verbatim>\<open>driver.js\<close>). A value that the code tests
  with \<^verbatim>\<open>!v\<close> or prints with a template literal is a \<open>jsval\<close>. Numbers are the
  integer-valued ones (\<open>NaN\<close> and fractions are left out); \<open>JObject k\<close> stands for an
  object such as the big integers of the blind-signature library, with decimal
  rendering \<open>k\<close>. A string is the list of its UTF-8 bytes, a \<^verbatim>\<open>Buffer\<close> a list of bytes.
\<close>

type_synonym byte = "8 word"
type_synonym buffer = "byte list"

datatype jsval = JUndefined | JNull | JBool bool | JNum int | JStr string | JObject int

fun truthy :: "jsval \<Rightarrow> bool" where
  "truthy JUndefined = False"
| "truthy JNull = False"
| "truthy (JBool b) = b"
| "truthy (JNum k) = (k \<noteq> 0)"
| "truthy (JStr s) = (s \<noteq> [])"
| "truthy (JObject k) = True"

text \<open>The prefix operator \<^verbatim>\<open>!v\<close>.\<close>

definition falsy :: "jsval \<Rightarrow> bool" where
  "falsy v = (\<not> truthy v)"

text \<open>A \<^verbatim>\<open>Buffer\<close> is an object: \<^verbatim>\<open>!buf\<close> is false, also for the empty buffer.\<close>

definition falsy_buffer :: "buffer \<Rightarrow> bool" where
  "falsy_buffer b = False"

text \<open>
  A thrown value: \<^verbatim>\<open>new Error(msg)\<close>, or a \<^verbatim>\<open>TypeError\<close> raised by the engine (reading a
  property of \<^verbatim>\<open>undefined\<close>, \<^verbatim>\<open>Buffer.from(undefined)\<close>); \<open>message\<close> is \<^verbatim>\<open>err.message\<close>.
\<close>

datatype js_error = Error string | TypeError string

fun message :: "js_error \<Rightarrow> string" where
  "message (Error m) = m"
| "message (TypeError m) = m"

definition digit :: "nat \<Rightarrow> char" where
  "digit d = ''0123456789abcdef'' ! d"

function decimal :: "nat \<Rightarrow> string" where
  "decimal k = (if k < 10 then [digit k] else decimal (k div 10) @ [digit (k mod 10)])"
  by pat_completeness auto
termination
  by (relation "measure id") auto

declare decimal.simps [simp del]

definition decimal_int :: "int \<Rightarrow> string" where
  "decimal_int k = (if k < 0 then CHR ''-'' # decimal (nat (- k)) else decimal (nat k))"

text \<open>What a template literal \<^verbatim>\<open>${v}\<close> inserts for \<open>v\<close>.\<close>

fun js_to_string :: "jsval \<Rightarrow> string" where
  "js_to_string JUndefined = ''undefined''"
| "js_to_string JNull = ''null''"
| "js_to_string (JBool b) = (if b then ''true'' else ''false'')"
| "js_to_string (JNum k) = decimal_int k"
| "js_to_string (JStr s) = s"
| "js_to_string (JObject k) = decimal_int k"

text \<open>Reading \<^verbatim>\<open>xs[i]\<close> from an array: \<^verbatim>\<open>undefined\<close> (here \<open>None\<close>) out of range.\<close>

definition nth_opt :: "'a list \<Rightarrow> nat \<Rightarrow> 'a option" where
  "nth_opt xs i = (if i < length xs then Some (xs ! i) else None)"

text \<open>\<^verbatim>\<open>Array.prototype.join\<close> and \<^verbatim>\<open>String.prototype.split\<close> (one-character separator).\<close>

fun js_join :: "string \<Rightarrow> string list \<Rightarrow> string" where
  "js_join sep [] = []"
| "js_join sep [x] = x"
| "js_join sep (x # y # ys) = x @ sep @ js_join sep (y # ys)"

fun js_split :: "char \<Rightarrow> string \<Rightarrow> string list" where
  "js_split sep [] = [[]]"
| "js_split sep (c # cs) =
     (if c = sep then [] # js_split sep cs
      else (case js_split sep cs of w # ws \<Rightarrow> (c # w) # ws | [] \<Rightarrow> [[c]]))"

definition startsWith :: "string \<Rightarrow> string \<Rightarrow> bool" where
  "startsWith s p = (take (length p) s = p)"

text \<open>
  \<^verbatim>\<open>Buffer.from(s)\<close> and \<^verbatim>\<open>buf.toString()\<close> pass between a string and its bytes;
  \<^verbatim>\<open>buf.toString('hex')\<close> writes two lower-case digits per byte, and
  \<^verbatim>\<open>Buffer.from(s, 'hex')\<close> reads pairs of hex digits up to the first pair that is not
  one (an odd last character is dropped). \<^verbatim>\<open>Buffer.from(undefined, 'hex')\<close> throws.
  Bytes that are not valid UTF-8 are kept as they are by \<open>Buffer_toString\<close> (Node
  replaces them by U+FFFD; ASCII bytes, and so the tag and the colons, are not touched).
\<close>

definition Buffer_from :: "string \<Rightarrow> buffer" where
  "Buffer_from s = map of_char s"

definition Buffer_toString :: "buffer \<Rightarrow> string" where
  "Buffer_toString b = map (\<lambda>w. char_of (unat w)) b"

definition hex_of_byte :: "byte \<Rightarrow> string" where
  "hex_of_byte w = [digit (unat w div 16), digit (unat w mod 16)]"

definition toString_hex :: "buffer \<Rightarrow> string" where
  "toString_hex b = concat (map hex_of_byte b)"

definition hex_value :: "char \<Rightarrow> nat option" where
  "hex_value c =
     (let k = (of_char c :: nat) in
      if 48 \<le> k \<and> k \<le> 57 then Some (k - 48)
      else if 97 \<le> k \<and> k \<le> 102 then Some (k - 87)
      else if 65 \<le> k \<and> k \<le> 70 then Some (k - 55)
      else None)"

fun hex_decode :: "string \<Rightarrow> buffer" where
  "hex_decode (a # b # rest) =
     (case hex_value a of
        None \<Rightarrow> []
      | Some x \<Rightarrow> (case hex_value b of
                    None \<Rightarrow> []
                  | Some y \<Rightarrow> word_of_nat (16 * x + y) # hex_decode rest))"
| "hex_decode [a] = []"
| "hex_decode [] = []"

definition Buffer_from_hex :: "string option \<Rightarrow> js_error + buffer" where
  "Buffer_from_hex v =
     (case v of
        None \<Rightarrow> Inl (TypeError ''The first argument must be of type string; received undefined'')
      | Some s \<Rightarrow> Inr (hex_decode s))"

text \<open>
  \<^verbatim>\<open>JSON.stringify\<close> of an array of strings: the quoted elements, comma-separated, in
  brackets. A quote and a backslash are escaped, control characters too.
\<close>

definition json_escape :: "char \<Rightarrow> string" where
  "json_escape c =
     (if c = CHR 0x22 then [CHR 0x5C, CHR 0x22]
      else if c = CHR 0x5C then [CHR 0x5C, CHR 0x5C]
      else if c = CHR 0x08 then [CHR 0x5C, CHR ''b'']
      else if c = CHR 0x09 then [CHR 0x5C, CHR ''t'']
      else if c = CHR 0x0A then [CHR 0x5C, CHR ''n'']
      else if c = CHR 0x0C then [CHR 0x5C, CHR ''f'']
      else if c = CHR 0x0D then [CHR 0x5C, CHR ''r'']
      else if (of_char c :: nat) < 32
      then [CHR 0x5C, CHR ''u'', CHR ''0'', CHR ''0'',
            digit ((of_char c :: nat) div 16), digit ((of_char c :: nat) mod 16)]
      else [c])"

definition json_quote :: "string \<Rightarrow> string" where
  "json_quote s = [CHR 0x22] @ concat (map json_escape s) @ [CHR 0x22]"

definition JSON_stringify :: "string list \<Rightarrow> string" where
  "JSON_stringify xs = ''['' @ js_join '','' (map json_quote xs) @ '']''"

section \<open>Constants and the primitives the program is given\<close>

definition COIN_RIS_LENGTH :: nat where
  "COIN_RIS_LENGTH = 20"

definition IDENT_STR :: string where
  "IDENT_STR = ''IDENT''"

definition BANK_STR :: string where
  "BANK_STR = ''ELECTRONIC_PIGGYBANK''"

text \<open>
  The blind-signature library and \<^verbatim>\<open>utils.js\<close> are not part of the two files. What they
  return is a parameter of the model: \<open>makeGUID\<close> is the identifier that
  \<^verbatim>\<open>utils.makeGUID()\<close> returns (or what it throws), \<open>otp_random i j\<close> the \<open>j\<close>-th random byte drawn by the
  \<open>i\<close>-th call of \<^verbatim>\<open>utils.makeOTP\<close>, \<open>hash\<close> is \<^verbatim>\<open>utils.hash\<close> on a buffer and
  \<open>hash_undefined\<close> what \<^verbatim>\<open>utils.hash(undefined)\<close> does (a digest, or on the left the
  message of the \<^verbatim>\<open>TypeError\<close> that the engine raises); \<open>bs_blind message N E\<close>,
  \<open>bs_sign blinded\<close> (under the bank's key), \<open>bs_unblind signed N r\<close> and
  \<open>bs_verify unblinded N E message\<close> are the four operations of the library, the
  first and third of which may throw.
\<close>

record env =
  makeGUID :: "js_error + string"
  otp_random :: "nat \<Rightarrow> nat \<Rightarrow> byte"
  hash :: "buffer \<Rightarrow> string"
  hash_undefined :: "string + string"
  bs_blind :: "string \<Rightarrow> jsval \<Rightarrow> jsval \<Rightarrow> js_error + jsval \<times> jsval"
  bs_sign :: "jsval \<Rightarrow> jsval"
  bs_unblind :: "jsval \<Rightarrow> jsval \<Rightarrow> jsval \<Rightarrow> js_error + jsval"
  bs_verify :: "jsval \<Rightarrow> jsval \<Rightarrow> jsval \<Rightarrow> string \<Rightarrow> bool"

text \<open>
  Modelled from the spec: \<^verbatim>\<open>utils.makeOTP\<close> is missing from the source files. The spec
  gives \<^verbatim>\<open>makeOTP(plaintext) -> (key, ciphertext)\<close> with \<^verbatim>\<open>ciphertext = plaintext XOR key\<close>
  and a random key that covers the plaintext; it describes the key and the ciphertext of
  a pair as byte strings of one fixed length, the one chosen by the primitive. The key
  has the length of the plaintext's bytes here, and its random bytes are the argument
  \<open>rnd\<close>.
\<close>

definition makeOTP :: "(nat \<Rightarrow> byte) \<Rightarrow> string \<Rightarrow> buffer \<times> buffer" where
  "makeOTP rnd string =
     (let buffer = Buffer_from string;
          key = map rnd [0..<length buffer];
          ciphertext = map2 (XOR) buffer key
      in (key, ciphertext))"

text \<open>
  Modelled from the spec: \<^verbatim>\<open>utils.decryptOTP\<close> is missing from the source files. The spec
  gives \<^verbatim>\<open>decrypt(key, ciphertext) -> plaintext\<close> as the XOR over the overlapping length;
  with \<^verbatim>\<open>returnType: 'string'\<close> the bytes are returned as a string.
\<close>

definition decryptOTP :: "buffer \<Rightarrow> buffer \<Rightarrow> string" where
  "decryptOTP key ciphertext = Buffer_toString (map2 (XOR) key ciphertext)"

section \<open>The coin (\<^verbatim>\<open>coin.js\<close>)\<close>

text \<open>
  The fields of a \<^verbatim>\<open>Coin\<close> object. \<open>coin_n\<close> and \<open>coin_e\<close> are the fields \<^verbatim>\<open>n\<close> and \<^verbatim>\<open>e\<close>;
  a field that has not been assigned is \<open>JUndefined\<close>.
\<close>

record coin =
  amount :: jsval
  coin_n :: jsval
  coin_e :: jsval
  guid :: string
  leftIdent :: "buffer list"
  rightIdent :: "buffer list"
  coinString :: string
  blinded :: jsval
  blindingFactor :: jsval
  signature :: jsval

definition toString :: "coin \<Rightarrow> string" where
  "toString this = coinString this"

text \<open>\<^verbatim>\<open>blind()\<close>: every failure inside the \<^verbatim>\<open>try\<close> is rethrown with the prefix.\<close>

definition blind :: "env \<Rightarrow> coin \<Rightarrow> js_error + coin" where
  "blind E this =
     (case bs_blind E (toString this) (coin_n this) (coin_e this) of
        Inl err \<Rightarrow> Inl (Error (''Blinding failed: '' @ message err))
      | Inr (b, r) \<Rightarrow>
          if falsy b \<or> falsy r
          then Inl (Error (''Blinding failed: '' @ ''Blinding returned invalid values''))
          else Inr (this\<lparr>blinded := b, blindingFactor := r\<rparr>))"

text \<open>
  The constructor. The test of the arguments and the call of \<^verbatim>\<open>utils.makeGUID\<close> stand
  before the \<^verbatim>\<open>try\<close>: what they throw is not wrapped. In the loop \<open>i\<close> is the counter; the state is the object under
  construction (its \<open>leftIdent\<close> and \<open>rightIdent\<close>) and the local arrays
  \<^verbatim>\<open>leftHashes\<close> and \<^verbatim>\<open>rightHashes\<close>.
\<close>

function ris_loop ::
  "env \<Rightarrow> jsval \<Rightarrow> nat \<Rightarrow> coin \<times> string list \<times> string list
     \<Rightarrow> js_error + coin \<times> string list \<times> string list" where
  "ris_loop E purchaser i (this, leftHashes, rightHashes) =
     (if i < COIN_RIS_LENGTH then
        (case makeOTP (otp_random E i) (IDENT_STR @ '':'' @ js_to_string purchaser) of
           (key, ciphertext) \<Rightarrow>
             if falsy_buffer key \<or> falsy_buffer ciphertext
             then Inl (Error ''OTP generation failed'')
             else ris_loop E purchaser (i + 1)
                    (this\<lparr>leftIdent := leftIdent this @ [key],
                          rightIdent := rightIdent this @ [ciphertext]\<rparr>,
                     leftHashes @ [hash E key],
                     rightHashes @ [hash E ciphertext]))
      else Inr (this, leftHashes, rightHashes))"
  by pat_completeness auto
termination
  by (relation "measure (\<lambda>(E, purchaser, i, st). COIN_RIS_LENGTH - i)") auto

declare ris_loop.simps [simp del]

definition Coin_constructor :: "env \<Rightarrow> jsval \<Rightarrow> jsval \<Rightarrow> jsval \<Rightarrow> jsval \<Rightarrow> js_error + coin" where
  "Coin_constructor E purchaser amt n e =
     (if falsy purchaser \<or> falsy amt \<or> falsy n \<or> falsy e
      then Inl (Error ''Missing required coin parameters'')
      else
        (case makeGUID E of
           Inl err \<Rightarrow> Inl err
         | Inr g \<Rightarrow>
             (let this = \<lparr>amount = amt, coin_n = n, coin_e = e, guid = g,
                          leftIdent = [], rightIdent = [], coinString = [],
                          blinded = JUndefined, blindingFactor = JUndefined,
                          signature = JUndefined\<rparr>
              in case ris_loop E purchaser 0 (this, [], []) of
                   Inl err \<Rightarrow> Inl (Error (''Coin creation failed: '' @ message err))
                 | Inr (this, leftHashes, rightHashes) \<Rightarrow>
                     (case blind E
                             (this\<lparr>coinString :=
                                     BANK_STR @ ''-'' @ js_to_string (amount this) @ ''-'' @ guid this
                                       @ ''-'' @ js_join '','' leftHashes
                                       @ ''-'' @ js_join '','' rightHashes\<rparr>) of
                        Inl err \<Rightarrow> Inl (Error (''Coin creation failed: '' @ message err))
                      | Inr this \<Rightarrow> Inr this))))"

text \<open>
  \<^verbatim>\<open>unblind()\<close>. \<open>unblind_apply\<close> is what follows the guard on \<^verbatim>\<open>this.signature\<close>: the call
  of the library with the stored \<^verbatim>\<open>n\<close> and \<^verbatim>\<open>blindingFactor\<close>, the assignment and the test
  of the result. A failed call returns the error alone: the object it leaves behind
  (whose \<^verbatim>\<open>signature\<close> holds the empty result when the last test fails) is used by no
  caller.
\<close>

definition unblind_apply :: "env \<Rightarrow> coin \<Rightarrow> js_error + coin" where
  "unblind_apply E this =
     (case bs_unblind E (signature this) (coin_n this) (blindingFactor this) of
        Inl err \<Rightarrow> Inl (Error (''Unblinding failed: '' @ message err))
      | Inr s \<Rightarrow>
          if falsy s
          then Inl (Error (''Unblinding failed: '' @ ''Unblinding failed''))
          else Inr (this\<lparr>signature := s\<rparr>))"

definition unblind :: "env \<Rightarrow> coin \<Rightarrow> js_error + coin" where
  "unblind E this =
     (if falsy (signature this)
      then Inl (Error (''Unblinding failed: '' @ ''No signature to unblind''))
      else unblind_apply E this)"

definition getRis :: "coin \<Rightarrow> bool \<Rightarrow> int \<Rightarrow> js_error + buffer option" where
  "getRis this isLeft i =
     (if i < 0 \<or> i \<ge> int COIN_RIS_LENGTH
      then Inl (Error (''RIS index out of bounds: '' @ decimal_int i))
      else Inr (if isLeft then nth_opt (leftIdent this) (nat i)
                else nth_opt (rightIdent this) (nat i)))"

section \<open>Bank, merchant and reconciliation (\<^verbatim>\<open>driver.js\<close>)\<close>

definition signCoin :: "env \<Rightarrow> jsval \<Rightarrow> jsval" where
  "signCoin E blindedCoinHash = bs_sign E blindedCoinHash"

text \<open>
  \<^verbatim>\<open>parseCoin\<close>: the destructuring takes the first five pieces of the split; a missing
  piece is \<^verbatim>\<open>undefined\<close>, and \<^verbatim>\<open>undefined.split\<close> is a \<^verbatim>\<open>TypeError\<close>.
\<close>

definition parseCoin :: "string \<Rightarrow> js_error + string list \<times> string list" where
  "parseCoin s =
     (let parts = js_split CHR ''-'' s;
          cnst = nth_opt parts 0;
          leftHashes = nth_opt parts 3;
          rightHashes = nth_opt parts 4
      in if cnst \<noteq> Some BANK_STR
         then Inl (Error (''Invalid identity string: ''
                 @ (case cnst of None \<Rightarrow> ''undefined'' | Some c \<Rightarrow> c)
                 @ '' received, but '' @ BANK_STR @ '' expected''))
         else (case leftHashes of
                 None \<Rightarrow> Inl (TypeError ''Cannot read properties of undefined (reading split)'')
               | Some l \<Rightarrow>
                   (case rightHashes of
                      None \<Rightarrow> Inl (TypeError ''Cannot read properties of undefined (reading split)'')
                    | Some r \<Rightarrow> Inr (js_split CHR '','' l, js_split CHR '','' r))))"

text \<open>
  The loop of \<^verbatim>\<open>acceptCoin\<close>. \<open>randInt i\<close> is what \<^verbatim>\<open>utils.randInt(2)\<close> returns in round
  \<open>i\<close>. When the disclosed element is \<^verbatim>\<open>undefined\<close>, either \<^verbatim>\<open>utils.hash\<close> throws, or the
  hashes differ, or \<^verbatim>\<open>risElement.toString\<close> is a \<^verbatim>\<open>TypeError\<close>.
\<close>

function accept_loop ::
  "env \<Rightarrow> (nat \<Rightarrow> nat) \<Rightarrow> coin \<Rightarrow> string list \<Rightarrow> string list \<Rightarrow> nat \<Rightarrow> string list
     \<Rightarrow> js_error + string list" where
  "accept_loop E randInt coin leftHashes rightHashes i ris =
     (if i < COIN_RIS_LENGTH then
        (let isLeft = (randInt i = 0) in
         case getRis coin isLeft (int i) of
           Inl err \<Rightarrow> Inl err
         | Inr risElement \<Rightarrow>
             (let expectedHash = (if isLeft then nth_opt leftHashes i else nth_opt rightHashes i) in
              case risElement of
                None \<Rightarrow>
                  (case hash_undefined E of
                     Inl m \<Rightarrow> Inl (TypeError m)
                   | Inr h \<Rightarrow>
                       if Some h \<noteq> expectedHash
                       then Inl (Error (''RIS hash mismatch at position '' @ decimal i))
                       else Inl (TypeError ''Cannot read properties of undefined (reading toString)''))
              | Some b \<Rightarrow>
                  if Some (hash E b) \<noteq> expectedHash
                  then Inl (Error (''RIS hash mismatch at position '' @ decimal i))
                  else accept_loop E randInt coin leftHashes rightHashes (i + 1)
                         (ris @ [toString_hex b])))
      else Inr ris)"
  by pat_completeness auto
termination
  by (relation "measure (\<lambda>(E, randInt, coin, lh, rh, i, ris). COIN_RIS_LENGTH - i)") auto

declare accept_loop.simps [simp del]

text \<open>\<open>N\<close> and \<open>E'\<close> are the bank's public key, the module constants \<^verbatim>\<open>N\<close> and \<^verbatim>\<open>E\<close>.\<close>

definition acceptCoin :: "env \<Rightarrow> (nat \<Rightarrow> nat) \<Rightarrow> jsval \<Rightarrow> jsval \<Rightarrow> coin \<Rightarrow> js_error + string list" where
  "acceptCoin E randInt N E' coin =
     (let isValid = bs_verify E (signature coin) N E' (toString coin) in
      if \<not> isValid then Inl (Error ''Invalid coin signature'')
      else (case parseCoin (toString coin) of
              Inl err \<Rightarrow> Inl err
            | Inr (leftHashes, rightHashes) \<Rightarrow>
                accept_loop E randInt coin leftHashes rightHashes 0 []))"

text \<open>
  \<^verbatim>\<open>determineCheater\<close> (its first argument, the coin's guid, only appears in the
  printed line) prints one of three lines: \<open>MerchantCheated\<close> is
  \<^verbatim>\<open>Merchant is cheating!\<close>, \<open>PurchaserCheated p\<close> is \<^verbatim>\<open>Purchaser ${purchaser} is cheating!\<close>
  (with \<open>p = None\<close> when \<^verbatim>\<open>purchaser\<close> is \<^verbatim>\<open>undefined\<close>), and \<open>Undetermined\<close> is
  \<^verbatim>\<open>Unable to determine who cheated\<close>.
\<close>

datatype outcome = MerchantCheated | PurchaserCheated "string option" | Undetermined

text \<open>
  The body of the \<^verbatim>\<open>try\<close> at index \<open>i\<close>: \<open>Inl\<close> when it throws, \<open>Inr None\<close> when it
  runs to its end or reaches the \<^verbatim>\<open>continue\<close>, \<open>Inr (Some p)\<close> when it reaches the
  \<^verbatim>\<open>return\<close> with \<^verbatim>\<open>purchaser\<close> being \<open>p\<close>.
\<close>

definition try_reveal :: "string list \<Rightarrow> string list \<Rightarrow> nat \<Rightarrow> js_error + string option option" where
  "try_reveal ris1 ris2 i =
     (case Buffer_from_hex (nth_opt ris1 i) of
        Inl err \<Rightarrow> Inl err
      | Inr buf1 \<Rightarrow>
          (case Buffer_from_hex (nth_opt ris2 i) of
             Inl err \<Rightarrow> Inl err
           | Inr buf2 \<Rightarrow>
               if length buf1 \<noteq> length buf2 then Inr None
               else (let decrypted = decryptOTP buf1 buf2 in
                     if startsWith decrypted IDENT_STR
                     then Inr (Some (nth_opt (js_split CHR '':'' decrypted) 1))
                     else Inr None)))"

function reveal_loop :: "string list \<Rightarrow> string list \<Rightarrow> nat \<Rightarrow> outcome" where
  "reveal_loop ris1 ris2 i =
     (if i < length ris1 then
        (case try_reveal ris1 ris2 i of
           Inl err \<Rightarrow> reveal_loop ris1 ris2 (i + 1)
         | Inr None \<Rightarrow> reveal_loop ris1 ris2 (i + 1)
         | Inr (Some purchaser) \<Rightarrow> PurchaserCheated purchaser)
      else Undetermined)"
  by pat_completeness auto
termination
  by (relation "measure (\<lambda>(ris1, ris2, i). length ris1 - i)") auto

declare reveal_loop.simps [simp del]

definition determineCheater :: "string \<Rightarrow> string list \<Rightarrow> string list \<Rightarrow> js_error + outcome" where
  "determineCheater gid ris1 ris2 =
     (if JSON_stringify ris1 = JSON_stringify ris2 then Inr MerchantCheated
      else Inr (reveal_loop ris1 ris2 0))"

text \<open>
  The script at the end of \<^verbatim>\<open>driver.js\<close>, for a purchaser and an amount: the coin is
  made, signed by the bank and unblinded, two merchants accept it (with the random
  choices \<open>randInt1\<close> and \<open>randInt2\<close>), and the bank compares first the two reports,
  then the first report with itself.
\<close>

definition driver_script ::
  "env \<Rightarrow> jsval \<Rightarrow> jsval \<Rightarrow> jsval \<Rightarrow> jsval \<Rightarrow> (nat \<Rightarrow> nat) \<Rightarrow> (nat \<Rightarrow> nat)
     \<Rightarrow> js_error + outcome \<times> outcome" where
  "driver_script E N E' purchaser amt randInt1 randInt2 =
     (case Coin_constructor E purchaser amt N E' of
        Inl err \<Rightarrow> Inl err
      | Inr coin \<Rightarrow>
          (case unblind E (coin\<lparr>signature := signCoin E (blinded coin)\<rparr>) of
             Inl err \<Rightarrow> Inl err
           | Inr coin \<Rightarrow>
               (case acceptCoin E randInt1 N E' coin of
                  Inl err \<Rightarrow> Inl err
                | Inr ris1 \<Rightarrow>
                    (case acceptCoin E randInt2 N E' coin of
                       Inl err \<Rightarrow> Inl err
                     | Inr ris2 \<Rightarrow>
                         (case determineCheater (guid coin) ris1 ris2 of
                            Inl err \<Rightarrow> Inl err
                          | Inr first \<Rightarrow>
                              (case determineCheater (guid coin) ris1 ris1 of
                                 Inl err \<Rightarrow> Inl err
                               | Inr second \<Rightarrow> Inr (first, second)))))))"

section \<open>An environment to run the program in\<close>

text \<open>
  Concrete primitives, to evaluate the program on examples: the guid is fixed, the
  \<open>j\<close>-th random byte of the \<open>i\<close>-th pad is \<open>7 i + j + 1\<close>, the hash of a buffer is its
  hex form, blinding puts a mark in front of the message and unblinding takes the
  first character off, the bank signs by returning what it is given, and a
  signature is valid when it is the message.
\<close>

definition demo_env :: env where
  "demo_env =
     \<lparr>makeGUID = Inr ''c0ffee'',
      otp_random = (\<lambda>i j. word_of_nat (7 * i + j + 1)),
      hash = toString_hex,
      hash_undefined = Inl ''Cannot read properties of undefined (reading toString)'',
      bs_blind = (\<lambda>m N E'. Inr (JStr (CHR ''~'' # m), JObject 3)),
      bs_sign = (\<lambda>b. b),
      bs_unblind = (\<lambda>s N r. Inr (case s of JStr t \<Rightarrow> JStr (tl t) | _ \<Rightarrow> JUndefined)),
      bs_verify = (\<lambda>s N E' m. s = JStr m)\<rparr>"

text \<open>The same environment with a guid source and a blinding that throw.\<close>

definition failing_env :: env where
  "failing_env =
     demo_env\<lparr>makeGUID := Inl (Error ''no entropy''),
              bs_blind := (\<lambda>m N E'. Inl (Error ''no key''))\<rparr>"

section \<open>Notions used in the statements\<close>

text \<open>
  The pad that round \<open>i\<close> of the constructor's loop makes: the pair of the key and the
  ciphertext of the identity string.
\<close>

definition ident_pad :: "env \<Rightarrow> jsval \<Rightarrow> nat \<Rightarrow> buffer \<times> buffer" where
  "ident_pad E purchaser i = makeOTP (otp_random E i) (IDENT_STR @ '':'' @ js_to_string purchaser)"

text \<open>The value a merchant discloses in round \<open>i\<close>: the left one when the draw is \<open>0\<close>.\<close>

definition disclosed :: "(nat \<Rightarrow> nat) \<Rightarrow> coin \<Rightarrow> nat \<Rightarrow> buffer" where
  "disclosed randInt c i = (if randInt i = 0 then leftIdent c ! i else rightIdent c ! i)"

text \<open>
  What index \<open>i\<close> of two reports decodes to, and the test that \<^verbatim>\<open>determineCheater\<close>
  makes there: the second report has an element, the two decoded buffers have one
  length, and the decoded string starts with the tag.
\<close>

definition decoded :: "string list \<Rightarrow> string list \<Rightarrow> nat \<Rightarrow> string" where
  "decoded ris1 ris2 i = decryptOTP (hex_decode (ris1 ! i)) (hex_decode (ris2 ! i))"

definition tagged :: "string list \<Rightarrow> string list \<Rightarrow> nat \<Rightarrow> bool" where
  "tagged ris1 ris2 i =
     (i < length ris2 \<and> length (hex_decode (ris1 ! i)) = length (hex_decode (ris2 ! i)) \<and>
      startsWith (decoded ris1 ris2 i) IDENT_STR)"

text \<open>
  The specification's well-formed identity string: the tag, a colon, the identity.
\<close>

definition well_formed_identity :: "string \<Rightarrow> bool" where
  "well_formed_identity s = startsWith s (IDENT_STR @ '':'')"

text \<open>
  No field of the coin string contains the separator that joins the fields, and no
  hash the separator of the hash lists.
\<close>

definition separator_free :: "env \<Rightarrow> coin \<Rightarrow> bool" where
  "separator_free E c =
     (CHR ''-'' \<notin> set (js_to_string (amount c)) \<and> CHR ''-'' \<notin> set (guid c) \<and>
      list_all (\<lambda>x. CHR ''-'' \<notin> set (hash E x) \<and> CHR '','' \<notin> set (hash E x))
        (leftIdent c @ rightIdent c))"

text \<open>
  The life of a coin \<open>c0\<close> after its construction: the bank's signature is assigned to
  the field \<^verbatim>\<open>signature\<close>, and the methods \<^verbatim>\<open>blind\<close> and \<^verbatim>\<open>unblind\<close> are called.
\<close>

inductive lifetime :: "env \<Rightarrow> coin \<Rightarrow> coin \<Rightarrow> bool" for E :: env and c0 :: coin where
  constructed: "lifetime E c0 c0"
| signed: "lifetime E c0 c \<Longrightarrow> lifetime E c0 (c\<lparr>signature := s\<rparr>)"
| blinded_again: "lifetime E c0 c \<Longrightarrow> blind E c = Inr c' \<Longrightarrow> lifetime E c0 c'"
| unblinded: "lifetime E c0 c \<Longrightarrow> unblind E c = Inr c' \<Longrightarrow> lifetime E c0 c'"

section \<open>Strings: split, join and digits\<close>

lemma js_split_not_Nil: "js_split sep s \<noteq> []"
  by (induction s) (auto split: list.splits)

lemma js_split_no_sep: "sep \<notin> set x \<Longrightarrow> js_split sep x = [x]"
  by (induction x) auto

lemma js_split_field: "sep \<notin> set x \<Longrightarrow> js_split sep (x @ sep # rest) = x # js_split sep rest"
  by (induction x) (auto simp: js_split_not_Nil split: list.splits)

lemma js_split_append: "js_split sep (x @ sep # rest) = js_split sep x @ js_split sep rest"
proof (induction x)
  case Nil
  show ?case by simp
next
  case (Cons c cs)
  obtain w ws where "js_split sep cs = w # ws"
    using js_split_not_Nil[of sep cs] by (cases "js_split sep cs") auto
  with Cons show ?case by simp
qed

lemma js_split_join:
  "xs \<noteq> [] \<Longrightarrow> \<forall>x\<in>set xs. sep \<notin> set x \<Longrightarrow> js_split sep (js_join [sep] xs) = xs"
proof (induction xs)
  case Nil
  then show ?case by simp
next
  case (Cons x xs)
  show ?case
  proof (cases xs)
    case Nil
    with Cons.prems show ?thesis by (simp add: js_split_no_sep)
  next
    case (Cons y ys)
    with Cons.prems Cons.IH show ?thesis by (simp add: js_split_field)
  qed
qed

lemma set_js_join: "set (js_join sep xs) \<subseteq> set sep \<union> (\<Union>x\<in>set xs. set x)"
  by (induction sep xs rule: js_join.induct) auto

lemma js_join_Cons:
  "js_join sep (x # xs) = x @ (if xs = [] then [] else sep @ js_join sep xs)"
  by (cases xs) simp_all

lemma digit_hex: "d < 16 \<Longrightarrow> digit d \<in> set ''0123456789abcdef''"
  unfolding digit_def by (rule nth_mem) simp

lemma digit_decimal: "d < 10 \<Longrightarrow> digit d \<in> set ''0123456789''"
proof -
  assume "d < 10"
  then have "''0123456789abcdef'' ! d = ''0123456789'' ! d"
    by (simp add: nth_Cons' )
  moreover have "''0123456789'' ! d \<in> set ''0123456789''" using \<open>d < 10\<close> by (intro nth_mem) simp
  ultimately show ?thesis by (simp add: digit_def)
qed

lemma set_decimal: "set (decimal k) \<subseteq> set ''0123456789''"
proof (induction k rule: decimal.induct)
  case (1 k)
  show ?case
  proof (cases "k < 10")
    case True
    then show ?thesis using digit_decimal[of k] by (subst decimal.simps) simp
  next
    case False
    then show ?thesis using 1 digit_decimal[of "k mod 10"] by (subst decimal.simps) simp
  qed
qed

lemma decimal_int_no_sep: "0 \<le> k \<Longrightarrow> CHR ''-'' \<notin> set (decimal_int k)"
  using set_decimal[of "nat k"] by (auto simp: decimal_int_def)

lemma digit_inj: "a < 16 \<Longrightarrow> b < 16 \<Longrightarrow> digit a = digit b \<Longrightarrow> a = b"
proof -
  have d: "distinct ''0123456789abcdef''" by simp
  assume "a < 16" "b < 16" "digit a = digit b"
  then show ?thesis
    using nth_eq_iff_index_eq[OF d, of a b] by (simp add: digit_def)
qed

section \<open>Hex encoding and decoding\<close>

lemma set_toString_hex: "set (toString_hex b) \<subseteq> set ''0123456789abcdef''"
proof -
  define H where "H = set ''0123456789abcdef''"
  have "set (hex_of_byte w) \<subseteq> H" for w
  proof -
    have "unat w < 256" using unsigned_less[of w] by simp
    then have d: "unat w div 16 < 16" by arith
    have m: "unat w mod 16 < 16" by arith
    have "digit (unat w div 16) \<in> H" "digit (unat w mod 16) \<in> H"
      unfolding H_def by (rule digit_hex[OF d], rule digit_hex[OF m])
    then show ?thesis by (simp add: hex_of_byte_def)
  qed
  then have "set (toString_hex b) \<subseteq> H"
    unfolding toString_hex_def by (induction b) simp_all
  then show ?thesis by (simp only: H_def)
qed

lemma toString_hex_no_sep:
  "CHR ''-'' \<notin> set (toString_hex b)" "CHR '','' \<notin> set (toString_hex b)"
  using set_toString_hex[of b] by auto

lemma length_toString_hex: "length (toString_hex b) = 2 * length b"
  by (induction b) (simp_all add: toString_hex_def hex_of_byte_def)

lemma hex_value_digit: "d < 16 \<Longrightarrow> hex_value (digit d) = Some d"
proof -
  have "list_all (\<lambda>d. hex_value (digit d) = Some d) [0..<16]"
    by code_simp
  then show "d < 16 \<Longrightarrow> hex_value (digit d) = Some d"
    by (simp add: list_all_iff)
qed

lemma hex_decode_byte: "hex_decode (hex_of_byte w @ rest) = w # hex_decode rest"
proof -
  have "unat w < 256" using unsigned_less[of w] by simp
  then have d: "unat w div 16 < 16" by arith
  have m: "unat w mod 16 < 16" by arith
  have "16 * (unat w div 16) + unat w mod 16 = unat w" by simp
  then show ?thesis
    by (simp add: hex_of_byte_def hex_value_digit[OF d] hex_value_digit[OF m])
qed

lemma hex_decode_toString_hex: "hex_decode (toString_hex b) = b"
  by (induction b) (simp_all add: toString_hex_def hex_decode_byte)

lemma toString_hex_inj: "toString_hex a = toString_hex b \<Longrightarrow> a = b"
  by (metis hex_decode_toString_hex)

section \<open>\<^verbatim>\<open>JSON.stringify\<close> tells two arrays of strings apart\<close>

text \<open>
  Every escaped character is a token that is no proper prefix of another and does not
  start with a quote, so the closing quote of an element is found from the left, and
  two arrays with one text are one array.
\<close>

lemma json_escape_not_quote: "json_escape c \<noteq> [] \<and> hd (json_escape c) \<noteq> CHR 0x22"
  by (simp add: json_escape_def)

lemma json_escape_prefix_free:
  assumes "json_escape c @ s = json_escape d @ t"
  shows "c = d \<and> s = t"
proof -
  have lt: "(of_char x :: nat) < 32 \<Longrightarrow> (of_char x :: nat) div 16 < 16 \<and> (of_char x :: nat) mod 16 < 16" for x :: char
    by arith
  have u: "c = d" if "(of_char c :: nat) < 32" "(of_char d :: nat) < 32"
    "digit ((of_char c :: nat) div 16) = digit ((of_char d :: nat) div 16)"
    "digit ((of_char c :: nat) mod 16) = digit ((of_char d :: nat) mod 16)"
  proof -
    from that lt[of c] lt[of d] have "(of_char c :: nat) div 16 = of_char d div 16"
      "(of_char c :: nat) mod 16 = of_char d mod 16"
      by (auto intro: digit_inj)
    then have "(of_char c :: nat) = of_char d"
      by (metis div_mult_mod_eq)
    then show ?thesis by simp
  qed
  show ?thesis
    using assms u
    by (auto simp: json_escape_def split: if_splits)
qed

lemma escaped_delimited:
  "concat (map json_escape x) @ CHR 0x22 # r = concat (map json_escape y) @ CHR 0x22 # t
   \<Longrightarrow> x = y \<and> r = t"
proof (induction x arbitrary: y)
  case Nil
  show ?case
  proof (cases y)
    case Nil
    with Nil.prems show ?thesis by simp
  next
    case (Cons d ds)
    with Nil.prems json_escape_not_quote[of d] show ?thesis
      by (cases "json_escape d") auto
  qed
next
  case (Cons c cs)
  show ?case
  proof (cases y)
    case Nil
    with Cons.prems json_escape_not_quote[of c] show ?thesis
      by (cases "json_escape c") auto
  next
    case (Cons d ds)
    with Cons.prems have
      "json_escape c @ (concat (map json_escape cs) @ CHR 0x22 # r)
         = json_escape d @ (concat (map json_escape ds) @ CHR 0x22 # t)"
      by simp
    from json_escape_prefix_free[OF this] Cons.IH[of ds] Cons show ?thesis by simp
  qed
qed

lemma json_quote_delimited:
  "json_quote x @ r = json_quote y @ t \<Longrightarrow> x = y \<and> r = t"
  using escaped_delimited[of x r y t] by (simp add: json_quote_def)

lemma json_quote_not_Nil: "json_quote x \<noteq> []"
  by (simp add: json_quote_def)

lemma joined_quotes_inj:
  "js_join '','' (map json_quote xs) = js_join '','' (map json_quote ys) \<Longrightarrow> xs = ys"
proof (induction xs arbitrary: ys)
  case Nil
  then show ?case
    by (cases ys) (simp_all add: js_join_Cons json_quote_not_Nil)
next
  case (Cons x xs)
  show ?case
  proof (cases ys)
    case Nil
    with Cons.prems show ?thesis by (simp add: js_join_Cons json_quote_not_Nil)
  next
    case (Cons y ys')
    with Cons.prems have
      "json_quote x @ (if xs = [] then [] else '','' @ js_join '','' (map json_quote xs))
         = json_quote y @ (if ys' = [] then [] else '','' @ js_join '','' (map json_quote ys'))"
      by (simp add: js_join_Cons)
    from json_quote_delimited[OF this] have xy: "x = y"
      and rest: "(if xs = [] then [] else '','' @ js_join '','' (map json_quote xs))
                  = (if ys' = [] then [] else '','' @ js_join '','' (map json_quote ys'))"
      by simp_all
    from rest have "xs = ys'"
      using Cons.IH[of ys'] by (auto split: if_splits)
    with xy Cons show ?thesis by simp
  qed
qed

lemma JSON_stringify_inj: "JSON_stringify xs = JSON_stringify ys \<longleftrightarrow> xs = ys"
  using joined_quotes_inj[of xs ys] by (auto simp: JSON_stringify_def)

section \<open>The one-time pad\<close>

lemma unat_of_char: "unat (of_char c :: byte) = of_char c"
proof -
  have "(of_char c :: nat) < 256" by simp
  then have "unat (of_nat (of_char c) :: byte) = of_char c"
    by (simp add: unat_of_nat)
  then show ?thesis by (simp add: of_nat_of_char)
qed

lemma Buffer_toString_from: "Buffer_toString (Buffer_from s) = s"
  by (induction s) (simp_all add: Buffer_toString_def Buffer_from_def unat_of_char)

lemma map2_xor_self: "map2 (XOR) (b :: buffer) b = replicate (length b) 0"
  by (induction b) simp_all

lemma map2_xor_cancel:
  "length key = length p \<Longrightarrow> map2 (XOR) key (map2 (XOR) (p :: buffer) key) = p"
proof (induction key arbitrary: p)
  case Nil
  then show ?case by simp
next
  case (Cons k ks)
  then obtain q qs where "p = q # qs" by (cases p) auto
  with Cons show ?case by (simp add: ac_simps)
qed

lemma map2_xor_cancel':
  "length key = length p \<Longrightarrow> map2 (XOR) (map2 (XOR) (p :: buffer) key) key = p"
proof (induction key arbitrary: p)
  case Nil
  then show ?case by simp
next
  case (Cons k ks)
  then obtain q qs where "p = q # qs" by (cases p) auto
  with Cons show ?case by (simp add: ac_simps)
qed

lemma makeOTP_props:
  assumes "makeOTP rnd s = (key, ct)"
  shows "length key = length s" and "length ct = length s"
    and "decryptOTP key ct = s" and "decryptOTP ct key = s"
    and "decryptOTP key key = replicate (length s) (CHR 0x00)"
    and "decryptOTP ct ct = replicate (length s) (CHR 0x00)"
    and "s \<noteq> [] \<Longrightarrow> hd s \<noteq> CHR 0x00 \<Longrightarrow> key \<noteq> ct"
proof -
  from assms have key: "key = map rnd [0..<length s]"
    and ct: "ct = map2 (XOR) (Buffer_from s) key"
    by (auto simp: makeOTP_def Let_def Buffer_from_def)
  show lk: "length key = length s" by (simp add: key)
  have lb: "length key = length (Buffer_from s)" by (simp add: key Buffer_from_def)
  show lc: "length ct = length s" by (simp add: ct lk Buffer_from_def)
  show d1: "decryptOTP key ct = s"
    by (simp add: decryptOTP_def ct map2_xor_cancel[OF lb] Buffer_toString_from)
  show d2: "decryptOTP ct key = s"
    by (simp add: decryptOTP_def ct map2_xor_cancel'[OF lb] Buffer_toString_from)
  have "char_of (0 :: nat) = CHR 0x00" by code_simp
  then have z: "Buffer_toString (replicate k 0) = replicate k (CHR 0x00)" for k
    by (simp add: Buffer_toString_def)
  show "decryptOTP key key = replicate (length s) (CHR 0x00)"
    by (simp add: decryptOTP_def map2_xor_self z lk)
  show "decryptOTP ct ct = replicate (length s) (CHR 0x00)"
    by (simp add: decryptOTP_def map2_xor_self z lc)
  show "key \<noteq> ct" if "s \<noteq> []" "hd s \<noteq> CHR 0x00"
  proof
    assume "key = ct"
    then have "decryptOTP key ct = decryptOTP key key" by simp
    with d1 have "s = replicate (length s) (CHR 0x00)"
      by (simp add: decryptOTP_def map2_xor_self z lk)
    with that show False by (cases s) auto
  qed
qed

section \<open>The constructor and the methods of a coin\<close>

lemma ris_loop_step:
  assumes "i < COIN_RIS_LENGTH"
  shows "ris_loop E purchaser i (this, lh, rh) =
         ris_loop E purchaser (Suc i)
           (this\<lparr>leftIdent := leftIdent this @ [fst (ident_pad E purchaser i)],
                 rightIdent := rightIdent this @ [snd (ident_pad E purchaser i)]\<rparr>,
            lh @ [hash E (fst (ident_pad E purchaser i))],
            rh @ [hash E (snd (ident_pad E purchaser i))])"
  by (subst ris_loop.simps) (simp add: assms falsy_buffer_def ident_pad_def split: prod.split)

lemma ris_loop_closed:
  "i \<le> COIN_RIS_LENGTH \<Longrightarrow>
   ris_loop E purchaser i (this, lh, rh) =
     Inr (this\<lparr>leftIdent := leftIdent this @ map (\<lambda>j. fst (ident_pad E purchaser j)) [i..<COIN_RIS_LENGTH],
               rightIdent := rightIdent this @ map (\<lambda>j. snd (ident_pad E purchaser j)) [i..<COIN_RIS_LENGTH]\<rparr>,
          lh @ map (\<lambda>j. hash E (fst (ident_pad E purchaser j))) [i..<COIN_RIS_LENGTH],
          rh @ map (\<lambda>j. hash E (snd (ident_pad E purchaser j))) [i..<COIN_RIS_LENGTH])"
proof (induction "COIN_RIS_LENGTH - i" arbitrary: i this lh rh)
  case 0
  then have "i = COIN_RIS_LENGTH" by simp
  then show ?case by (subst ris_loop.simps) simp
next
  case (Suc k)
  then have lt: "i < COIN_RIS_LENGTH" and k: "k = COIN_RIS_LENGTH - Suc i" and le: "Suc i \<le> COIN_RIS_LENGTH"
    by auto
  show ?case
    by (simp add: ris_loop_step[OF lt] Suc.hyps(1)[OF k le] upt_conv_Cons[OF lt])
qed

lemma blind_Inr:
  assumes "blind E this = Inr c"
  shows "leftIdent c = leftIdent this" and "rightIdent c = rightIdent this"
    and "coinString c = coinString this" and "amount c = amount this"
    and "coin_n c = coin_n this" and "coin_e c = coin_e this" and "guid c = guid this"
    and "signature c = signature this"
    and "bs_blind E (coinString this) (coin_n this) (coin_e this) = Inr (blinded c, blindingFactor c)"
    and "truthy (blinded c)" and "truthy (blindingFactor c)"
  using assms
  by (auto simp: blind_def toString_def falsy_def split: sum.splits prod.splits if_splits)

lemma constructor_Inr:
  assumes "Coin_constructor E purchaser amt n e = Inr c"
  shows "leftIdent c = map (\<lambda>j. fst (ident_pad E purchaser j)) [0..<COIN_RIS_LENGTH]"
    and "rightIdent c = map (\<lambda>j. snd (ident_pad E purchaser j)) [0..<COIN_RIS_LENGTH]"
    and "coinString c =
           BANK_STR @ ''-'' @ js_to_string amt @ ''-'' @ guid c
             @ ''-'' @ js_join '','' (map (hash E) (leftIdent c))
             @ ''-'' @ js_join '','' (map (hash E) (rightIdent c))"
    and "amount c = amt" and "coin_n c = n" and "coin_e c = e" and "makeGUID E = Inr (guid c)"
    and "signature c = JUndefined"
    and "bs_blind E (coinString c) n e = Inr (blinded c, blindingFactor c)"
    and "truthy (blinded c)" and "truthy (blindingFactor c)"
    and "truthy purchaser" and "truthy amt" and "truthy n" and "truthy e"
proof -
  from assms show t: "truthy purchaser" "truthy amt" "truthy n" "truthy e"
    by (auto simp: Coin_constructor_def falsy_def split: if_splits)
  from assms t obtain g where g: "makeGUID E = Inr g"
    by (cases "makeGUID E") (auto simp: Coin_constructor_def falsy_def)
  let ?c0 = "\<lparr>amount = amt, coin_n = n, coin_e = e, guid = g,
                 leftIdent = [], rightIdent = [], coinString = [],
                 blinded = JUndefined, blindingFactor = JUndefined, signature = JUndefined\<rparr>"
  let ?L = "map (\<lambda>j. fst (ident_pad E purchaser j)) [0..<COIN_RIS_LENGTH]"
  let ?R = "map (\<lambda>j. snd (ident_pad E purchaser j)) [0..<COIN_RIS_LENGTH]"
  let ?s = "BANK_STR @ ''-'' @ js_to_string amt @ ''-'' @ g
             @ ''-'' @ js_join '','' (map (hash E) ?L) @ ''-'' @ js_join '','' (map (hash E) ?R)"
  let ?pre = "?c0\<lparr>leftIdent := ?L, rightIdent := ?R, coinString := ?s\<rparr>"
  have loop: "ris_loop E purchaser 0 (?c0, [], []) =
      Inr (?c0\<lparr>leftIdent := ?L, rightIdent := ?R\<rparr>, map (hash E) ?L, map (hash E) ?R)"
    by (simp add: ris_loop_closed[of 0] comp_def)
  from assms t have b: "blind E ?pre = Inr c"
    by (simp add: Coin_constructor_def falsy_def g loop split: sum.splits)
  note bl = blind_Inr[OF b]
  from bl show "leftIdent c = ?L" "rightIdent c = ?R" "amount c = amt" "coin_n c = n"
    "coin_e c = e" "signature c = JUndefined"
    "truthy (blinded c)" "truthy (blindingFactor c)"
    by simp_all
  from bl g show gc: "makeGUID E = Inr (guid c)" by simp
  from bl gc g show "coinString c =
           BANK_STR @ ''-'' @ js_to_string amt @ ''-'' @ guid c
             @ ''-'' @ js_join '','' (map (hash E) (leftIdent c))
             @ ''-'' @ js_join '','' (map (hash E) (rightIdent c))"
    by simp
  with bl show "bs_blind E (coinString c) n e = Inr (blinded c, blindingFactor c)"
    by simp
qed

lemma constructor_lengths:
  assumes "Coin_constructor E purchaser amt n e = Inr c"
  shows "length (leftIdent c) = COIN_RIS_LENGTH" and "length (rightIdent c) = COIN_RIS_LENGTH"
  by (simp_all add: constructor_Inr(1,2)[OF assms])

lemma constructor_succeeds:
  assumes "truthy purchaser" and "truthy amt" and "truthy n" and "truthy e"
    and "makeGUID E = Inr g"
    and "\<And>s. \<exists>b r. bs_blind E s n e = Inr (b, r) \<and> truthy b \<and> truthy r"
  shows "\<exists>c. Coin_constructor E purchaser amt n e = Inr c"
proof -
  let ?c0 = "\<lparr>amount = amt, coin_n = n, coin_e = e, guid = g,
                 leftIdent = [], rightIdent = [], coinString = [],
                 blinded = JUndefined, blindingFactor = JUndefined, signature = JUndefined\<rparr>"
  obtain c1 lh rh where loop: "ris_loop E purchaser 0 (?c0, [], []) = Inr (c1, lh, rh)"
    and c1: "coin_n c1 = n" "coin_e c1 = e"
    by (simp add: ris_loop_closed[of 0])
  let ?c2 = "c1\<lparr>coinString := BANK_STR @ ''-'' @ js_to_string (amount c1) @ ''-'' @ guid c1
                 @ ''-'' @ js_join '','' lh @ ''-'' @ js_join '','' rh\<rparr>"
  from assms(6)[of "toString ?c2"] obtain b r
    where "bs_blind E (toString ?c2) n e = Inr (b, r)" "truthy b" "truthy r" by blast
  then have "blind E ?c2 = Inr (?c2\<lparr>blinded := b, blindingFactor := r\<rparr>)"
    by (simp add: blind_def c1 falsy_def)
  with assms(1-5) loop show ?thesis
    by (simp add: Coin_constructor_def falsy_def)
qed

lemma unblind_Inr:
  assumes "unblind E this = Inr c"
  shows "c = this\<lparr>signature := signature c\<rparr>"
    and "bs_unblind E (signature this) (coin_n this) (blindingFactor this) = Inr (signature c)"
    and "truthy (signature this)" and "truthy (signature c)"
  using assms
  by (auto simp: unblind_def unblind_apply_def falsy_def split: sum.splits if_splits)

lemma unblind_fields:
  assumes "unblind E this = Inr c"
  shows "leftIdent c = leftIdent this" and "rightIdent c = rightIdent this"
    and "coinString c = coinString this" and "amount c = amount this"
    and "coin_n c = coin_n this" and "coin_e c = coin_e this" and "guid c = guid this"
    and "blinded c = blinded this" and "blindingFactor c = blindingFactor this"
  using assms
  by (auto simp: unblind_def unblind_apply_def split: sum.splits if_splits)

lemma lifetime_fields:
  assumes "lifetime E c0 c"
  shows "leftIdent c = leftIdent c0 \<and> rightIdent c = rightIdent c0 \<and> coinString c = coinString c0
         \<and> amount c = amount c0 \<and> guid c = guid c0 \<and> coin_n c = coin_n c0 \<and> coin_e c = coin_e c0"
  using assms
proof (induction rule: lifetime.induct)
  case constructed
  show ?case by simp
next
  case (signed c s)
  then show ?case by simp
next
  case (blinded_again c c')
  then show ?case by (simp add: blind_Inr)
next
  case (unblinded c c')
  then show ?case by (simp add: unblind_fields)
qed

lemma separator_free_lifetime:
  assumes "lifetime E c0 c"
  shows "separator_free E c = separator_free E c0"
  using lifetime_fields[OF assms] by (simp add: separator_free_def)

section \<open>The coin string and its parser\<close>

lemma BANK_STR_no_sep: "CHR ''-'' \<notin> set BANK_STR"
  by (simp add: BANK_STR_def)

lemma join_hashes_no_dash:
  assumes "list_all (\<lambda>x. CHR ''-'' \<notin> set (hash E x) \<and> CHR '','' \<notin> set (hash E x)) xs"
  shows "CHR ''-'' \<notin> set (js_join '','' (map (hash E) xs))"
proof
  assume "CHR ''-'' \<in> set (js_join '','' (map (hash E) xs))"
  with set_js_join[of "'',''" "map (hash E) xs"]
  have "CHR ''-'' \<in> set '','' \<union> (\<Union>x\<in>set (map (hash E) xs). set x)" by blast
  with assms show False by (auto simp: list_all_iff)
qed

lemma split_hashes:
  assumes "list_all (\<lambda>x. CHR ''-'' \<notin> set (hash E x) \<and> CHR '','' \<notin> set (hash E x)) xs"
    and "xs \<noteq> []"
  shows "js_split CHR '','' (js_join '','' (map (hash E) xs)) = map (hash E) xs"
  using assms by (intro js_split_join) (auto simp: list_all_iff)

lemma serialize_split:
  assumes c: "Coin_constructor E purchaser amt n e = Inr c"
    and g: "CHR ''-'' \<notin> set (guid c)"
    and h: "list_all (\<lambda>x. CHR ''-'' \<notin> set (hash E x) \<and> CHR '','' \<notin> set (hash E x))
              (leftIdent c @ rightIdent c)"
  shows "js_split CHR ''-'' (toString c) =
           BANK_STR # js_split CHR ''-'' (js_to_string amt) @
           [guid c, js_join '','' (map (hash E) (leftIdent c)),
            js_join '','' (map (hash E) (rightIdent c))]"
proof -
  note k = constructor_Inr[OF c]
  from h have l: "list_all (\<lambda>x. CHR ''-'' \<notin> set (hash E x) \<and> CHR '','' \<notin> set (hash E x)) (leftIdent c)"
    and r: "list_all (\<lambda>x. CHR ''-'' \<notin> set (hash E x) \<and> CHR '','' \<notin> set (hash E x)) (rightIdent c)"
    by simp_all
  have "js_split CHR ''-'' (toString c) =
        js_split CHR ''-'' (BANK_STR @ CHR ''-'' # (js_to_string amt @ CHR ''-'' # (guid c @ CHR ''-'' #
          (js_join '','' (map (hash E) (leftIdent c)) @ CHR ''-'' # js_join '','' (map (hash E) (rightIdent c))))))"
    by (simp add: toString_def k(3))
  also have "\<dots> = BANK_STR # js_split CHR ''-'' (js_to_string amt) @ [guid c,
            js_join '','' (map (hash E) (leftIdent c)),
            js_join '','' (map (hash E) (rightIdent c))]"
    by (simp only: js_split_field[OF BANK_STR_no_sep] js_split_append[of _ "js_to_string amt"]
          js_split_field[OF g] js_split_field[OF join_hashes_no_dash[OF l]]
          js_split_no_sep[OF join_hashes_no_dash[OF r]])
  finally show ?thesis .
qed

lemma serialize_fields:
  assumes c: "Coin_constructor E purchaser amt n e = Inr c"
    and sf: "separator_free E c"
  shows "js_split CHR ''-'' (toString c) =
           [BANK_STR, js_to_string amt, guid c,
            js_join '','' (map (hash E) (leftIdent c)),
            js_join '','' (map (hash E) (rightIdent c))]"
proof -
  from sf have a: "CHR ''-'' \<notin> set (js_to_string amt)" and g: "CHR ''-'' \<notin> set (guid c)"
    and h: "list_all (\<lambda>x. CHR ''-'' \<notin> set (hash E x) \<and> CHR '','' \<notin> set (hash E x))
              (leftIdent c @ rightIdent c)"
    by (simp_all add: separator_free_def constructor_Inr(4)[OF c])
  from serialize_split[OF c g h] show ?thesis
    by (simp add: js_split_no_sep[OF a])
qed

lemma parseCoin_constructed:
  assumes c: "Coin_constructor E purchaser amt n e = Inr c"
    and sf: "separator_free E c"
  shows "parseCoin (toString c) = Inr (map (hash E) (leftIdent c), map (hash E) (rightIdent c))"
proof -
  note k = constructor_Inr[OF c]
  note len = constructor_lengths[OF c]
  from sf have l: "list_all (\<lambda>x. CHR ''-'' \<notin> set (hash E x) \<and> CHR '','' \<notin> set (hash E x)) (leftIdent c)"
    and r: "list_all (\<lambda>x. CHR ''-'' \<notin> set (hash E x) \<and> CHR '','' \<notin> set (hash E x)) (rightIdent c)"
    by (simp_all add: separator_free_def)
  from len have ne: "leftIdent c \<noteq> []" "rightIdent c \<noteq> []"
    by (auto simp: COIN_RIS_LENGTH_def)
  show ?thesis
    unfolding parseCoin_def serialize_fields[OF c sf]
    by (simp add: nth_opt_def split_hashes[OF l ne(1)] split_hashes[OF r ne(2)])
qed

section \<open>Acceptance by a merchant\<close>

lemma getRis_in_range:
  assumes "i < COIN_RIS_LENGTH"
  shows "getRis c isLeft (int i) =
           Inr (if isLeft then nth_opt (leftIdent c) i else nth_opt (rightIdent c) i)"
  using assms by (simp add: getRis_def)

lemma accept_loop_step:
  assumes "i < COIN_RIS_LENGTH"
    and "length (leftIdent c) = COIN_RIS_LENGTH" and "length (rightIdent c) = COIN_RIS_LENGTH"
  shows "accept_loop E randInt c lh rh i ris =
           (if Some (hash E (disclosed randInt c i)) \<noteq> (if randInt i = 0 then nth_opt lh i else nth_opt rh i)
            then Inl (Error (''RIS hash mismatch at position '' @ decimal i))
            else accept_loop E randInt c lh rh (Suc i) (ris @ [toString_hex (disclosed randInt c i)]))"
  by (subst accept_loop.simps) (simp add: assms getRis_in_range nth_opt_def disclosed_def Let_def)

lemma accept_loop_closed:
  assumes "length (leftIdent c) = COIN_RIS_LENGTH" and "length (rightIdent c) = COIN_RIS_LENGTH"
  shows "i \<le> COIN_RIS_LENGTH \<Longrightarrow>
         accept_loop E randInt c (map (hash E) (leftIdent c)) (map (hash E) (rightIdent c)) i ris =
           Inr (ris @ map (\<lambda>j. toString_hex (disclosed randInt c j)) [i..<COIN_RIS_LENGTH])"
proof (induction "COIN_RIS_LENGTH - i" arbitrary: i ris)
  case 0
  then have "i = COIN_RIS_LENGTH" by simp
  then show ?case by (subst accept_loop.simps) simp
next
  case (Suc k)
  then have lt: "i < COIN_RIS_LENGTH" and k: "k = COIN_RIS_LENGTH - Suc i" and le: "Suc i \<le> COIN_RIS_LENGTH"
    by auto
  have h: "Some (hash E (disclosed randInt c i)) =
        (if randInt i = 0 then nth_opt (map (hash E) (leftIdent c)) i
         else nth_opt (map (hash E) (rightIdent c)) i)"
    using lt assms by (simp add: nth_opt_def disclosed_def)
  show ?case
    by (simp add: accept_loop_step[OF lt assms] h Suc.hyps(1)[OF k le] upt_conv_Cons[OF lt])
qed

lemma accept_loop_Inr:
  assumes "length (leftIdent c) = COIN_RIS_LENGTH" and "length (rightIdent c) = COIN_RIS_LENGTH"
  shows "i \<le> COIN_RIS_LENGTH \<Longrightarrow> accept_loop E randInt c lh rh i ris = Inr out \<Longrightarrow>
         out = ris @ map (\<lambda>j. toString_hex (disclosed randInt c j)) [i..<COIN_RIS_LENGTH]"
proof (induction "COIN_RIS_LENGTH - i" arbitrary: i ris)
  case 0
  then have "i = COIN_RIS_LENGTH" by simp
  with 0(3) show ?case by (subst (asm) accept_loop.simps) simp
next
  case (Suc k)
  then have lt: "i < COIN_RIS_LENGTH" and k: "k = COIN_RIS_LENGTH - Suc i" and le: "Suc i \<le> COIN_RIS_LENGTH"
    by auto
  from Suc.prems(2) have
    "accept_loop E randInt c lh rh (Suc i) (ris @ [toString_hex (disclosed randInt c i)]) = Inr out"
    by (simp add: accept_loop_step[OF lt assms] split: if_splits)
  from Suc.hyps(1)[OF k le this] show ?case
    by (simp add: upt_conv_Cons[OF lt])
qed

lemma accept_loop_not_signature_error:
  "accept_loop E randInt c lh rh i ris \<noteq> Inl (Error ''Invalid coin signature'')"
proof (induction E randInt c lh rh i ris rule: accept_loop.induct)
  case (1 E randInt c lh rh i ris)
  show ?case
  proof (cases "i < COIN_RIS_LENGTH")
    case False
    then show ?thesis by (subst accept_loop.simps) simp
  next
    case True
    then have g: "getRis c (randInt i = 0) (int i) =
        Inr (if randInt i = 0 then nth_opt (leftIdent c) i else nth_opt (rightIdent c) i)"
      by (rule getRis_in_range)
    show ?thesis
    proof (cases "if randInt i = 0 then nth_opt (leftIdent c) i else nth_opt (rightIdent c) i")
      case None
      then show ?thesis
        by (subst accept_loop.simps) (simp add: True g Let_def split: sum.splits)
    next
      case (Some b)
      show ?thesis
      proof (cases "Some (hash E b) \<noteq> (if randInt i = 0 then nth_opt lh i else nth_opt rh i)")
        case mismatch: True
        then show ?thesis
          by (subst accept_loop.simps) (simp add: True g Some Let_def)
      next
        case False
        with "1.IH"[OF True refl g refl Some] show ?thesis
          by (subst accept_loop.simps) (simp add: True g Some Let_def)
      qed
    qed
  qed
qed

lemma parseCoin_not_signature_error:
  "parseCoin s \<noteq> Inl (Error ''Invalid coin signature'')"
  by (simp add: parseCoin_def Let_def split: option.splits)

lemma acceptCoin_rejected:
  "\<not> bs_verify E (signature c) N E' (toString c) \<Longrightarrow>
   acceptCoin E randInt N E' c = Inl (Error ''Invalid coin signature'')"
  by (simp add: acceptCoin_def)

lemma acceptCoin_verified:
  assumes "bs_verify E (signature c) N E' (toString c)"
  shows "acceptCoin E randInt N E' c \<noteq> Inl (Error ''Invalid coin signature'')"
  using assms parseCoin_not_signature_error[of "toString c"] accept_loop_not_signature_error
  by (auto simp: acceptCoin_def split: sum.splits)

lemma acceptCoin_Inr:
  assumes "acceptCoin E randInt N E' c = Inr ris"
    and "length (leftIdent c) = COIN_RIS_LENGTH" and "length (rightIdent c) = COIN_RIS_LENGTH"
  shows "ris = map (\<lambda>j. toString_hex (disclosed randInt c j)) [0..<COIN_RIS_LENGTH]"
proof -
  from assms(1) obtain lh rh where "accept_loop E randInt c lh rh 0 [] = Inr ris"
    by (auto simp: acceptCoin_def Let_def split: if_splits sum.splits)
  from accept_loop_Inr[OF assms(2,3) _ this] show ?thesis by simp
qed

lemma acceptCoin_constructed:
  assumes c0: "Coin_constructor E purchaser amt n e = Inr c0" and lt: "lifetime E c0 c"
    and sf: "separator_free E c"
    and v: "bs_verify E (signature c) N E' (toString c)"
  shows "acceptCoin E randInt N E' c
           = Inr (map (\<lambda>j. toString_hex (disclosed randInt c j)) [0..<COIN_RIS_LENGTH])"
proof -
  note f = lifetime_fields[OF lt]
  note len = constructor_lengths[OF c0]
  from sf have "separator_free E c0" by (simp add: separator_free_lifetime[OF lt])
  from parseCoin_constructed[OF c0 this] f
  have p: "parseCoin (toString c) = Inr (map (hash E) (leftIdent c), map (hash E) (rightIdent c))"
    by (simp add: toString_def)
  from f len have l: "length (leftIdent c) = COIN_RIS_LENGTH" "length (rightIdent c) = COIN_RIS_LENGTH"
    by simp_all
  show ?thesis
    using v by (simp add: acceptCoin_def p accept_loop_closed[OF l, of 0])
qed

section \<open>Reconciliation of two reports\<close>

lemma try_reveal_tagged:
  assumes "i < length ris1" and "tagged ris1 ris2 i"
  shows "try_reveal ris1 ris2 i = Inr (Some (nth_opt (js_split CHR '':'' (decoded ris1 ris2 i)) 1))"
  using assms by (simp add: try_reveal_def tagged_def decoded_def Buffer_from_hex_def nth_opt_def)

lemma try_reveal_untagged:
  assumes "i < length ris1" and "\<not> tagged ris1 ris2 i"
  shows "try_reveal ris1 ris2 i = Inr None \<or> (\<exists>err. try_reveal ris1 ris2 i = Inl err)"
  using assms by (auto simp: try_reveal_def tagged_def decoded_def Buffer_from_hex_def nth_opt_def Let_def)

lemma reveal_loop_hit:
  assumes "i < length ris1" and "tagged ris1 ris2 i"
  shows "reveal_loop ris1 ris2 i = PurchaserCheated (nth_opt (js_split CHR '':'' (decoded ris1 ris2 i)) 1)"
  by (subst reveal_loop.simps) (simp add: assms try_reveal_tagged)

lemma reveal_loop_skip:
  assumes "i < length ris1" and "\<not> tagged ris1 ris2 i"
  shows "reveal_loop ris1 ris2 i = reveal_loop ris1 ris2 (Suc i)"
  using try_reveal_untagged[OF assms]
  by (subst reveal_loop.simps) (auto simp: assms(1))

lemma reveal_loop_end: "length ris1 \<le> i \<Longrightarrow> reveal_loop ris1 ris2 i = Undetermined"
  by (subst reveal_loop.simps) simp

lemma reveal_loop_skips:
  assumes "\<forall>k. i \<le> k \<and> k < j \<longrightarrow> \<not> tagged ris1 ris2 k" and "i \<le> j" and "j \<le> length ris1"
  shows "reveal_loop ris1 ris2 i = reveal_loop ris1 ris2 j"
  using assms
proof (induction "j - i" arbitrary: i)
  case 0
  then show ?case by simp
next
  case (Suc d)
  then have lt: "i < length ris1" and nt: "\<not> tagged ris1 ris2 i" by auto
  have "reveal_loop ris1 ris2 (Suc i) = reveal_loop ris1 ris2 j"
    using Suc.prems Suc.hyps(2) by (intro Suc.hyps(1)) auto
  then show ?case by (simp add: reveal_loop_skip[OF lt nt])
qed

lemma reveal_loop_first:
  assumes "i < length ris1" and "tagged ris1 ris2 i" and "\<forall>j<i. \<not> tagged ris1 ris2 j"
  shows "reveal_loop ris1 ris2 0 = PurchaserCheated (nth_opt (js_split CHR '':'' (decoded ris1 ris2 i)) 1)"
proof -
  have "reveal_loop ris1 ris2 0 = reveal_loop ris1 ris2 i"
    using assms by (intro reveal_loop_skips) auto
  then show ?thesis by (simp add: reveal_loop_hit[OF assms(1,2)])
qed

lemma reveal_loop_none:
  assumes "\<forall>i<length ris1. \<not> tagged ris1 ris2 i"
  shows "reveal_loop ris1 ris2 0 = Undetermined"
proof -
  have "reveal_loop ris1 ris2 0 = reveal_loop ris1 ris2 (length ris1)"
    using assms by (intro reveal_loop_skips) auto
  then show ?thesis by (simp add: reveal_loop_end)
qed

lemma reveal_loop_Undetermined_iff:
  "reveal_loop ris1 ris2 0 = Undetermined \<longleftrightarrow> (\<forall>i<length ris1. \<not> tagged ris1 ris2 i)"
proof
  assume u: "reveal_loop ris1 ris2 0 = Undetermined"
  show "\<forall>i<length ris1. \<not> tagged ris1 ris2 i"
  proof (rule ccontr)
    assume "\<not> (\<forall>i<length ris1. \<not> tagged ris1 ris2 i)"
    then have ex: "\<exists>i. i < length ris1 \<and> tagged ris1 ris2 i" by blast
    define m where "m = (LEAST i. i < length ris1 \<and> tagged ris1 ris2 i)"
    from ex have m: "m < length ris1 \<and> tagged ris1 ris2 m"
      unfolding m_def by (rule LeastI_ex)
    have "\<forall>j<m. \<not> tagged ris1 ris2 j"
      using not_less_Least[of _ "\<lambda>i. i < length ris1 \<and> tagged ris1 ris2 i"] m
      unfolding m_def by (metis less_trans)
    with m have "reveal_loop ris1 ris2 0 = PurchaserCheated (nth_opt (js_split CHR '':'' (decoded ris1 ris2 m)) 1)"
      by (intro reveal_loop_first) auto
    with u show False by simp
  qed
next
  assume "\<forall>i<length ris1. \<not> tagged ris1 ris2 i"
  then show "reveal_loop ris1 ris2 0 = Undetermined" by (rule reveal_loop_none)
qed

lemma not_tagged_zeros:
  "\<not> startsWith (replicate k (CHR 0x00)) IDENT_STR"
  by (cases k) (simp_all add: startsWith_def IDENT_STR_def)

lemma ident_plaintext_tagged:
  "startsWith (IDENT_STR @ '':'' @ s) IDENT_STR"
  by (simp add: startsWith_def)

text \<open>
  Two reports of one coin that disclose opposite sides at some index: the scan stops at
  the first such index with the text between the first and the second colon of the
  identity string, which is the purchaser when the purchaser contains no colon.
\<close>

lemma reconcile_double_spend:
  assumes c0: "Coin_constructor E purchaser amt n e = Inr c0" and lt: "lifetime E c0 c"
    and r1: "acceptCoin E randInt1 N E' c = Inr ris1"
    and r2: "acceptCoin E randInt2 N E' c = Inr ris2"
    and i: "i < COIN_RIS_LENGTH" and opp: "(randInt1 i = 0) \<noteq> (randInt2 i = 0)"
  shows "determineCheater gid ris1 ris2 =
           Inr (PurchaserCheated
                 (nth_opt (js_split CHR '':'' (IDENT_STR @ '':'' @ js_to_string purchaser)) 1))"
proof -
  define pt where "pt = IDENT_STR @ '':'' @ js_to_string purchaser"
  define K where "K = COIN_RIS_LENGTH"
  note f = lifetime_fields[OF lt]
  note k = constructor_Inr[OF c0]
  from f constructor_lengths[OF c0]
  have len: "length (leftIdent c) = COIN_RIS_LENGTH" "length (rightIdent c) = COIN_RIS_LENGTH"
    by simp_all
  note s1 = acceptCoin_Inr[OF r1 len]
  note s2 = acceptCoin_Inr[OF r2 len]
  have l1: "length ris1 = K" and l2: "length ris2 = K" by (simp_all add: s1 s2 K_def)
  have pad: "makeOTP (otp_random E j) pt = (leftIdent c ! j, rightIdent c ! j)" if "j < K" for j
    using that f by (simp add: k(1,2) ident_pad_def pt_def K_def)
  have dec: "decoded ris1 ris2 j = decryptOTP (disclosed randInt1 c j) (disclosed randInt2 c j)"
    if "j < K" for j
    using that by (simp add: decoded_def s1 s2 K_def hex_decode_toString_hex)
  have same: "\<not> tagged ris1 ris2 j" if "j < K" "(randInt1 j = 0) = (randInt2 j = 0)" for j
  proof -
    from that(2) makeOTP_props(5,6)[OF pad[OF that(1)]]
    have "decoded ris1 ris2 j = replicate (length pt) (CHR 0x00)"
      by (auto simp: dec[OF that(1)] disclosed_def)
    then show ?thesis by (simp add: tagged_def not_tagged_zeros)
  qed
  have other: "tagged ris1 ris2 j \<and> decoded ris1 ris2 j = pt \<and> ris1 ! j \<noteq> ris2 ! j"
    if "j < K" "(randInt1 j = 0) \<noteq> (randInt2 j = 0)" for j
  proof -
    note m = makeOTP_props[OF pad[OF that(1)]]
    from that(2) m(3,4) have d: "decoded ris1 ris2 j = pt"
      by (auto simp: dec[OF that(1)] disclosed_def)
    have "pt \<noteq> []" "hd pt \<noteq> CHR 0x00" by (simp_all add: pt_def IDENT_STR_def)
    from m(7)[OF this] have "leftIdent c ! j \<noteq> rightIdent c ! j" .
    with that have ne: "disclosed randInt1 c j \<noteq> disclosed randInt2 c j"
      by (auto simp: disclosed_def)
    then have "ris1 ! j \<noteq> ris2 ! j"
      using that(1) toString_hex_inj by (auto simp: s1 s2 K_def)
    moreover have "length (hex_decode (ris1 ! j)) = length (hex_decode (ris2 ! j))"
      using that m(1,2) by (auto simp: s1 s2 K_def hex_decode_toString_hex disclosed_def)
    ultimately show ?thesis
      using that(1) ident_plaintext_tagged[of "js_to_string purchaser"]
      by (simp add: tagged_def d l2 pt_def)
  qed
  define m where "m = (LEAST j. j < K \<and> (randInt1 j = 0) \<noteq> (randInt2 j = 0))"
  from i opp have "\<exists>j. j < K \<and> (randInt1 j = 0) \<noteq> (randInt2 j = 0)"
    unfolding K_def by blast
  then have m: "m < K \<and> (randInt1 m = 0) \<noteq> (randInt2 m = 0)"
    unfolding m_def by (rule LeastI_ex)
  have before: "\<not> tagged ris1 ris2 j" if "j < m" for j
  proof -
    from that m have jK: "j < K" by simp
    from that have "\<not> (j < K \<and> (randInt1 j = 0) \<noteq> (randInt2 j = 0))"
      unfolding m_def by (rule not_less_Least)
    with jK have "(randInt1 j = 0) = (randInt2 j = 0)" by blast
    from same[OF jK this] show ?thesis .
  qed
  from other[of m] m have om: "tagged ris1 ris2 m" "decoded ris1 ris2 m = pt" "ris1 ! m \<noteq> ris2 ! m"
    by simp_all
  from om(3) have "ris1 \<noteq> ris2" by auto
  then have "determineCheater gid ris1 ris2 = Inr (reveal_loop ris1 ris2 0)"
    by (simp add: determineCheater_def JSON_stringify_inj)
  moreover have "reveal_loop ris1 ris2 0 =
      PurchaserCheated (nth_opt (js_split CHR '':'' (decoded ris1 ris2 m)) 1)"
    using m om(1) before by (intro reveal_loop_first) (simp_all add: l1)
  ultimately show ?thesis by (simp add: om(2) pt_def)
qed

lemma identity_without_colon:
  assumes "CHR '':'' \<notin> set s"
  shows "nth_opt (js_split CHR '':'' (IDENT_STR @ '':'' @ s)) 1 = Some s"
proof -
  have "CHR '':'' \<notin> set IDENT_STR" by (simp add: IDENT_STR_def)
  from js_split_field[OF this] js_split_no_sep[OF assms] show ?thesis
    by (simp add: nth_opt_def)
qed

section \<open>The program in the example environment\<close>

lemma demo_constructed:
  assumes "truthy purchaser" and "truthy amt"
  shows "\<exists>c. Coin_constructor demo_env purchaser amt (JStr ''77'') (JStr ''3'') = Inr c"
  using assms by (intro constructor_succeeds) (simp_all add: demo_env_def)

lemma demo_coin_blinded:
  assumes "Coin_constructor demo_env purchaser amt n e = Inr c"
  shows "blinded c = JStr (CHR ''~'' # coinString c)" and "blindingFactor c = JObject 3"
  using constructor_Inr(9)[OF assms] by (simp_all add: demo_env_def)

lemma demo_spendable:
  assumes "Coin_constructor demo_env purchaser amt n e = Inr c0"
  shows "unblind demo_env (c0\<lparr>signature := signCoin demo_env (blinded c0)\<rparr>)
           = Inr (c0\<lparr>signature := JStr (coinString c0)\<rparr>)"
proof -
  have "coinString c0 \<noteq> []"
    by (simp add: constructor_Inr(3)[OF assms] BANK_STR_def)
  then show ?thesis
    by (simp add: unblind_def unblind_apply_def signCoin_def demo_coin_blinded[OF assms] falsy_def
        demo_env_def)
qed

lemma demo_hashes_ok:
  "list_all (\<lambda>x. CHR ''-'' \<notin> set (hash demo_env x) \<and> CHR '','' \<notin> set (hash demo_env x)) xs"
  by (simp add: list_all_iff demo_env_def toString_hex_no_sep)

lemma demo_separator_free:
  assumes "Coin_constructor demo_env purchaser (JNum k) n e = Inr c" and "0 \<le> k"
  shows "separator_free demo_env c"
proof -
  have "hash demo_env = toString_hex" by (simp add: demo_env_def)
  moreover have "guid c = ''c0ffee''"
    using constructor_Inr(7)[OF assms(1)] by (simp add: demo_env_def)
  ultimately show ?thesis
    using decimal_int_no_sep[OF assms(2)]
    by (simp add: separator_free_def constructor_Inr(4)[OF assms(1)] toString_hex_no_sep
        list_all_iff)
qed

lemma demo_negative_amount_parse:
  assumes c: "Coin_constructor demo_env purchaser (JNum (- 5)) n e = Inr c"
  shows "js_split CHR ''-'' (toString c) =
           [BANK_STR, [], ''5'', ''c0ffee'',
            js_join '','' (map (hash demo_env) (leftIdent c)),
            js_join '','' (map (hash demo_env) (rightIdent c))]"
    and "parseCoin (toString c) = Inr ([''c0ffee''], map (hash demo_env) (leftIdent c))"
proof -
  have g: "guid c = ''c0ffee''" using constructor_Inr(7)[OF c] by (simp add: demo_env_def)
  then have g': "CHR ''-'' \<notin> set (guid c)" by simp
  have a: "js_split CHR ''-'' (decimal_int (- 5)) = [[], ''5'']" by code_simp
  from serialize_split[OF c g' demo_hashes_ok]
  show s: "js_split CHR ''-'' (toString c) =
           [BANK_STR, [], ''5'', ''c0ffee'',
            js_join '','' (map (hash demo_env) (leftIdent c)),
            js_join '','' (map (hash demo_env) (rightIdent c))]"
    by (simp add: a g)
  have ne: "leftIdent c \<noteq> []"
    using constructor_lengths(1)[OF c] by (auto simp: COIN_RIS_LENGTH_def)
  show "parseCoin (toString c) = Inr ([''c0ffee''], map (hash demo_env) (leftIdent c))"
    unfolding parseCoin_def s
    by (simp add: nth_opt_def split_hashes[OF demo_hashes_ok ne])
qed

text \<open>
  The script of \<^verbatim>\<open>driver.js\<close> in the example environment, for an amount of 20 and two
  merchants that draw opposite sides at some index.
\<close>

lemma demo_driver_script:
  assumes "truthy purchaser" and "i < COIN_RIS_LENGTH" and "(randInt1 i = 0) \<noteq> (randInt2 i = 0)"
  shows "driver_script demo_env (JStr ''77'') (JStr ''3'') purchaser (JNum 20) randInt1 randInt2
           = Inr (PurchaserCheated
                    (nth_opt (js_split CHR '':'' (IDENT_STR @ '':'' @ js_to_string purchaser)) 1),
                  MerchantCheated)"
proof -
  obtain c0 where c0: "Coin_constructor demo_env purchaser (JNum 20) (JStr ''77'') (JStr ''3'') = Inr c0"
    using demo_constructed[OF assms(1), of "JNum 20"] by auto
  define c where "c = c0\<lparr>signature := JStr (coinString c0)\<rparr>"
  have u: "unblind demo_env (c0\<lparr>signature := signCoin demo_env (blinded c0)\<rparr>) = Inr c"
    by (simp add: demo_spendable[OF c0] c_def)
  have lt: "lifetime demo_env c0 c"
    unfolding c_def by (intro lifetime.signed lifetime.constructed)
  have "separator_free demo_env c0" by (rule demo_separator_free[OF c0]) simp
  then have sf: "separator_free demo_env c" by (simp add: separator_free_lifetime[OF lt])
  have v: "bs_verify demo_env (signature c) (JStr ''77'') (JStr ''3'') (toString c)"
    by (simp add: c_def demo_env_def toString_def)
  define ris1 where "ris1 = map (\<lambda>j. toString_hex (disclosed randInt1 c j)) [0..<COIN_RIS_LENGTH]"
  define ris2 where "ris2 = map (\<lambda>j. toString_hex (disclosed randInt2 c j)) [0..<COIN_RIS_LENGTH]"
  have a1: "acceptCoin demo_env randInt1 (JStr ''77'') (JStr ''3'') c = Inr ris1"
    unfolding ris1_def by (rule acceptCoin_constructed[OF c0 lt sf v])
  have a2: "acceptCoin demo_env randInt2 (JStr ''77'') (JStr ''3'') c = Inr ris2"
    unfolding ris2_def by (rule acceptCoin_constructed[OF c0 lt sf v])
  note d1 = reconcile_double_spend[OF c0 lt a1 a2 assms(2,3), of "guid c"]
  have d2: "determineCheater (guid c) ris1 ris1 = Inr MerchantCheated"
    by (simp add: determineCheater_def)
  show ?thesis
    by (simp add: driver_script_def c0 u a1 a2 d1 d2)
qed

text \<open>The run of the script as it stands in the file: the purchaser is \<^verbatim>\<open>alice\<close>.\<close>

lemma demo_driver_alice:
  "driver_script demo_env (JStr ''77'') (JStr ''3'') (JStr ''alice'') (JNum 20)
     (\<lambda>i. 0) (\<lambda>i. if i = 7 then 1 else 0)
   = Inr (PurchaserCheated (Some ''alice''), MerchantCheated)"
proof -
  have "(7::nat) < COIN_RIS_LENGTH" by (simp add: COIN_RIS_LENGTH_def)
  then show ?thesis
    using demo_driver_script[of "JStr ''alice''" 7 "\<lambda>i. 0" "\<lambda>i. if i = 7 then 1 else 0"]
      identity_without_colon[of "''alice''"]
    by simp
qed

section \<open>The claims\<close>

text \<open>
  C1 (the code departs from it): two reports of one coin that disclose opposite sides
  at some index should name the purchaser exactly. The code prints the text between
  the first and the second colon of the decoded string: for the purchaser \<^verbatim>\<open>a:b\<close> the
  script of \<^verbatim>\<open>driver.js\<close>, with reports that differ at index 0, accuses \<^verbatim>\<open>a\<close>.
\<close>

theorem C1_identity_with_colon:
  "driver_script demo_env (JStr ''77'') (JStr ''3'') (JStr ''a:b'') (JNum 20)
     (\<lambda>i. 0) (\<lambda>i. if i = 0 then 1 else 0)
   = Inr (PurchaserCheated (Some ''a''), MerchantCheated)"
proof -
  have "nth_opt (js_split CHR '':'' (IDENT_STR @ '':'' @ js_to_string (JStr ''a:b''))) 1 = Some ''a''"
    by code_simp
  moreover have "(0::nat) < COIN_RIS_LENGTH" by (simp add: COIN_RIS_LENGTH_def)
  ultimately show ?thesis
    using demo_driver_script[of "JStr ''a:b''" 0 "\<lambda>i. 0" "\<lambda>i. if i = 0 then 1 else 0"]
    by simp
qed

text \<open>
  C2: two reports of the same length that agree at every index make
  \<^verbatim>\<open>determineCheater\<close> print that the merchant is cheating, whatever they contain.
\<close>

theorem C2_identical_reports:
  assumes "length ris1 = length ris2" and "\<forall>i<length ris1. ris1 ! i = ris2 ! i"
  shows "determineCheater gid ris1 ris2 = Inr MerchantCheated"
proof -
  from assms have "ris1 = ris2" by (simp add: list_eq_iff_nth_eq)
  then show ?thesis by (simp add: determineCheater_def)
qed

theorem C2_witness:
  "determineCheater ''c0ffee'' [''0a'', ''ff''] [''0a'', ''ff''] = Inr MerchantCheated"
  by (rule C2_identical_reports) simp_all

text \<open>
  C3, for coins without a separator inside a field: for a constructed coin whose printed amount and guid contain no \<^verbatim>\<open>-\<close> and
  whose hashes contain neither \<^verbatim>\<open>-\<close> nor a comma, splitting the coin string at \<^verbatim>\<open>-\<close> gives
  exactly the five fields bank tag, amount, guid, joined left hashes, joined right
  hashes, and \<^verbatim>\<open>parseCoin\<close> returns the two hash lists that the constructor embedded.
\<close>

theorem C3_serialize_fields:
  assumes "Coin_constructor E purchaser amt n e = Inr c" and "separator_free E c"
  shows "js_split CHR ''-'' (toString c) =
           [BANK_STR, js_to_string (amount c), guid c,
            js_join '','' (map (hash E) (leftIdent c)),
            js_join '','' (map (hash E) (rightIdent c))]
         \<and> parseCoin (toString c) = Inr (map (hash E) (leftIdent c), map (hash E) (rightIdent c))"
  using serialize_fields[OF assms] parseCoin_constructed[OF assms]
  by (simp add: constructor_Inr(4)[OF assms(1)])

theorem C3_witness:
  "\<exists>c. Coin_constructor demo_env (JStr ''alice'') (JNum 20) (JStr ''77'') (JStr ''3'') = Inr c
     \<and> separator_free demo_env c
     \<and> js_split CHR ''-'' (toString c) =
           [BANK_STR, js_to_string (amount c), guid c,
            js_join '','' (map (hash demo_env) (leftIdent c)),
            js_join '','' (map (hash demo_env) (rightIdent c))]
     \<and> parseCoin (toString c) = Inr (map (hash demo_env) (leftIdent c), map (hash demo_env) (rightIdent c))"
proof -
  obtain c where c: "Coin_constructor demo_env (JStr ''alice'') (JNum 20) (JStr ''77'') (JStr ''3'') = Inr c"
    using demo_constructed[of "JStr ''alice''" "JNum 20"] by auto
  have sf: "separator_free demo_env c" by (rule demo_separator_free[OF c]) simp
  from C3_serialize_fields[OF c sf] c sf show ?thesis by blast
qed

text \<open>
  The constructor accepts every amount that is not falsy. For the amount \<open>-5\<close> the coin
  string splits into six pieces, and \<^verbatim>\<open>parseCoin\<close> returns the guid and the left hashes
  in place of the left and the right hashes.
\<close>

theorem C3_counterexample:
  "\<exists>c. Coin_constructor demo_env (JStr ''alice'') (JNum (- 5)) (JStr ''77'') (JStr ''3'') = Inr c
     \<and> CHR ''-'' \<in> set (js_to_string (amount c))
     \<and> length (js_split CHR ''-'' (toString c)) = 6
     \<and> parseCoin (toString c)
          \<noteq> Inr (map (hash demo_env) (leftIdent c), map (hash demo_env) (rightIdent c))"
proof -
  obtain c where c: "Coin_constructor demo_env (JStr ''alice'') (JNum (- 5)) (JStr ''77'') (JStr ''3'') = Inr c"
    using demo_constructed[of "JStr ''alice''" "JNum (- 5)"] by auto
  have "length (map (hash demo_env) (leftIdent c)) \<noteq> length [''c0ffee'']"
    by (simp add: constructor_lengths(1)[OF c] COIN_RIS_LENGTH_def)
  then have "map (hash demo_env) (leftIdent c) \<noteq> [''c0ffee'']" by metis
  moreover have "decimal_int (- 5) = ''-5''" by code_simp
  then have "CHR ''-'' \<in> set (js_to_string (amount c))"
    by (simp add: constructor_Inr(4)[OF c])
  ultimately show ?thesis using demo_negative_amount_parse[OF c] c by auto
qed

text \<open>
  C4: through the life of a constructed coin, the coin string embeds two lists of
  \<open>K\<close> hashes, and for every \<open>i\<close> below \<open>K\<close> the hash of \<^verbatim>\<open>getRis(true, i)\<close> is the \<open>i\<close>-th
  left hash and the hash of \<^verbatim>\<open>getRis(false, i)\<close> the \<open>i\<close>-th right hash; they are the
  lists that \<^verbatim>\<open>parseCoin\<close> returns when no field contains a separator.
\<close>

theorem C4_commitments_in_step:
  assumes "Coin_constructor E purchaser amt n e = Inr c0" and "lifetime E c0 c"
  shows "\<exists>lh rh.
           toString c = BANK_STR @ ''-'' @ js_to_string (amount c) @ ''-'' @ guid c
                          @ ''-'' @ js_join '','' lh @ ''-'' @ js_join '','' rh
           \<and> length lh = COIN_RIS_LENGTH \<and> length rh = COIN_RIS_LENGTH
           \<and> (\<forall>i<COIN_RIS_LENGTH.
                 \<exists>x y. getRis c True (int i) = Inr (Some x) \<and> hash E x = lh ! i
                     \<and> getRis c False (int i) = Inr (Some y) \<and> hash E y = rh ! i)
           \<and> (separator_free E c \<longrightarrow> parseCoin (toString c) = Inr (lh, rh))"
proof -
  note k = constructor_Inr[OF assms(1)]
  note len = constructor_lengths[OF assms(1)]
  note f = lifetime_fields[OF assms(2)]
  let ?lh = "map (hash E) (leftIdent c0)" and ?rh = "map (hash E) (rightIdent c0)"
  have s: "toString c = BANK_STR @ ''-'' @ js_to_string (amount c) @ ''-'' @ guid c
                          @ ''-'' @ js_join '','' ?lh @ ''-'' @ js_join '','' ?rh"
    using f k(3) by (simp add: toString_def k(4))
  have g: "\<forall>i<COIN_RIS_LENGTH.
             \<exists>x y. getRis c True (int i) = Inr (Some x) \<and> hash E x = ?lh ! i
                 \<and> getRis c False (int i) = Inr (Some y) \<and> hash E y = ?rh ! i"
    using f len by (simp add: getRis_in_range nth_opt_def)
  have p: "separator_free E c \<longrightarrow> parseCoin (toString c) = Inr (?lh, ?rh)"
  proof
    assume "separator_free E c"
    then have "separator_free E c0" by (simp add: separator_free_lifetime[OF assms(2)])
    from parseCoin_constructed[OF assms(1) this] f
    show "parseCoin (toString c) = Inr (?lh, ?rh)" by (simp add: toString_def)
  qed
  from s g p len show ?thesis by (intro exI[of _ ?lh] exI[of _ ?rh]) simp
qed

theorem C4_witness:
  "\<exists>c lh rh.
      Coin_constructor demo_env (JStr ''alice'') (JNum 20) (JStr ''77'') (JStr ''3'') = Inr c
      \<and> toString c = BANK_STR @ ''-'' @ js_to_string (amount c) @ ''-'' @ guid c
                          @ ''-'' @ js_join '','' lh @ ''-'' @ js_join '','' rh
      \<and> (\<exists>x y. getRis c True 7 = Inr (Some x) \<and> hash demo_env x = lh ! 7
             \<and> getRis c False 7 = Inr (Some y) \<and> hash demo_env y = rh ! 7)
      \<and> separator_free demo_env c
      \<and> parseCoin (toString c) = Inr (lh, rh)"
proof -
  obtain c where c: "Coin_constructor demo_env (JStr ''alice'') (JNum 20) (JStr ''77'') (JStr ''3'') = Inr c"
    using demo_constructed[of "JStr ''alice''" "JNum 20"] by auto
  have sf: "separator_free demo_env c" by (rule demo_separator_free[OF c]) simp
  from C4_commitments_in_step[OF c lifetime.constructed] obtain lh rh where
    s: "toString c = BANK_STR @ ''-'' @ js_to_string (amount c) @ ''-'' @ guid c
                          @ ''-'' @ js_join '','' lh @ ''-'' @ js_join '','' rh"
    and g: "\<forall>i<COIN_RIS_LENGTH.
                 \<exists>x y. getRis c True (int i) = Inr (Some x) \<and> hash demo_env x = lh ! i
                     \<and> getRis c False (int i) = Inr (Some y) \<and> hash demo_env y = rh ! i"
    and p: "separator_free demo_env c \<longrightarrow> parseCoin (toString c) = Inr (lh, rh)"
    by blast
  have "(7::nat) < COIN_RIS_LENGTH" by (simp add: COIN_RIS_LENGTH_def)
  with g have "\<exists>x y. getRis c True (int 7) = Inr (Some x) \<and> hash demo_env x = lh ! 7
                     \<and> getRis c False (int 7) = Inr (Some y) \<and> hash demo_env y = rh ! 7"
    by blast
  with c s sf p show ?thesis by auto
qed

text \<open>
  C5, as the code has it: a successful \<^verbatim>\<open>unblind\<close> replaces the signature by what the library
  computes from the old signature, \<^verbatim>\<open>n\<close> and the blinding factor, and changes no other
  field: \<^verbatim>\<open>blindingFactor\<close> and \<^verbatim>\<open>blinded\<close> keep their values.
\<close>

theorem C5_unblind_keeps_blinding_factor:
  assumes "unblind E c = Inr c'"
  shows "c' = c\<lparr>signature := signature c'\<rparr>
         \<and> bs_unblind E (signature c) (coin_n c) (blindingFactor c) = Inr (signature c')
         \<and> truthy (signature c')
         \<and> blindingFactor c' = blindingFactor c \<and> blinded c' = blinded c"
  using unblind_Inr[OF assms] unblind_fields(8,9)[OF assms] by simp

theorem C5_witness:
  "\<exists>c0 c'. Coin_constructor demo_env (JStr ''alice'') (JNum 20) (JStr ''77'') (JStr ''3'') = Inr c0
     \<and> unblind demo_env (c0\<lparr>signature := signCoin demo_env (blinded c0)\<rparr>) = Inr c'
     \<and> signature c' = JStr (toString c0)
     \<and> blindingFactor c' = blindingFactor c0 \<and> blinded c' = blinded c0"
proof -
  obtain c0 where c0: "Coin_constructor demo_env (JStr ''alice'') (JNum 20) (JStr ''77'') (JStr ''3'') = Inr c0"
    using demo_constructed[of "JStr ''alice''" "JNum 20"] by auto
  note u = demo_spendable[OF c0]
  from C5_unblind_keeps_blinding_factor[OF u] c0 u show ?thesis
    by (simp add: toString_def)
qed

text \<open>
  After the unblinding of a signed coin the blinding factor is still the one that the
  blinding step stored, and the blinded value is still there: neither is cleared.
\<close>

theorem C5_counterexample:
  "\<exists>c0 c'. Coin_constructor demo_env (JStr ''alice'') (JNum 20) (JStr ''77'') (JStr ''3'') = Inr c0
     \<and> unblind demo_env (c0\<lparr>signature := signCoin demo_env (blinded c0)\<rparr>) = Inr c'
     \<and> blindingFactor c' = JObject 3 \<and> truthy (blindingFactor c') \<and> truthy (blinded c')"
proof -
  obtain c0 where c0: "Coin_constructor demo_env (JStr ''alice'') (JNum 20) (JStr ''77'') (JStr ''3'') = Inr c0"
    using demo_constructed[of "JStr ''alice''" "JNum 20"] by auto
  note u = demo_spendable[OF c0]
  from c0 u demo_coin_blinded[OF c0] show ?thesis by simp
qed

text \<open>
  C6, for coins without a separator inside a field: \<^verbatim>\<open>acceptCoin\<close> throws
  \<^verbatim>\<open>Invalid coin signature\<close> exactly when the library rejects the signature for the coin
  string; and for a constructed coin in its life, with no separator inside a field and
  a signature that the library accepts, \<^verbatim>\<open>acceptCoin\<close> returns a report of length \<open>K\<close>
  whose \<open>i\<close>-th element is the hex form of \<^verbatim>\<open>leftIdent[i]\<close> or of \<^verbatim>\<open>rightIdent[i]\<close>, as
  drawn.
\<close>

theorem C6_accept:
  "(acceptCoin E randInt N E' c = Inl (Error ''Invalid coin signature'') \<longleftrightarrow>
      \<not> bs_verify E (signature c) N E' (toString c))
   \<and> (Coin_constructor E purchaser amt n e = Inr c0 \<and> lifetime E c0 c \<and> separator_free E c
        \<and> bs_verify E (signature c) N E' (toString c) \<longrightarrow>
      (\<exists>ris. acceptCoin E randInt N E' c = Inr ris \<and> length ris = COIN_RIS_LENGTH
         \<and> (\<forall>i<COIN_RIS_LENGTH.
               ris ! i = toString_hex (if randInt i = 0 then leftIdent c ! i else rightIdent c ! i))))"
proof (intro conjI impI)
  show "acceptCoin E randInt N E' c = Inl (Error ''Invalid coin signature'') \<longleftrightarrow>
      \<not> bs_verify E (signature c) N E' (toString c)"
    using acceptCoin_rejected[of E c N E' randInt] acceptCoin_verified[of E c N E' randInt]
    by blast
next
  assume a: "Coin_constructor E purchaser amt n e = Inr c0 \<and> lifetime E c0 c \<and> separator_free E c
        \<and> bs_verify E (signature c) N E' (toString c)"
  then have "acceptCoin E randInt N E' c
           = Inr (map (\<lambda>j. toString_hex (disclosed randInt c j)) [0..<COIN_RIS_LENGTH])"
    by (intro acceptCoin_constructed[of E purchaser amt n e c0]) simp_all
  then show "\<exists>ris. acceptCoin E randInt N E' c = Inr ris \<and> length ris = COIN_RIS_LENGTH
         \<and> (\<forall>i<COIN_RIS_LENGTH.
               ris ! i = toString_hex (if randInt i = 0 then leftIdent c ! i else rightIdent c ! i))"
    by (simp add: disclosed_def)
qed

theorem C6_witness:
  "\<exists>c0 c ris.
      Coin_constructor demo_env (JStr ''alice'') (JNum 20) (JStr ''77'') (JStr ''3'') = Inr c0
      \<and> acceptCoin demo_env (\<lambda>i. i mod 2) (JStr ''77'') (JStr ''3'') c0
           = Inl (Error ''Invalid coin signature'')
      \<and> unblind demo_env (c0\<lparr>signature := signCoin demo_env (blinded c0)\<rparr>) = Inr c
      \<and> separator_free demo_env c
      \<and> bs_verify demo_env (signature c) (JStr ''77'') (JStr ''3'') (toString c)
      \<and> acceptCoin demo_env (\<lambda>i. i mod 2) (JStr ''77'') (JStr ''3'') c = Inr ris
      \<and> length ris = COIN_RIS_LENGTH
      \<and> ris ! 0 = toString_hex (leftIdent c ! 0)
      \<and> ris ! 1 = toString_hex (rightIdent c ! 1)"
proof -
  obtain c0 where c0: "Coin_constructor demo_env (JStr ''alice'') (JNum 20) (JStr ''77'') (JStr ''3'') = Inr c0"
    using demo_constructed[of "JStr ''alice''" "JNum 20"] by auto
  define c where "c = c0\<lparr>signature := JStr (coinString c0)\<rparr>"
  have u: "unblind demo_env (c0\<lparr>signature := signCoin demo_env (blinded c0)\<rparr>) = Inr c"
    by (simp add: demo_spendable[OF c0] c_def)
  have lt: "lifetime demo_env c0 c"
    unfolding c_def by (intro lifetime.signed lifetime.constructed)
  have sf0: "separator_free demo_env c0" by (rule demo_separator_free[OF c0]) simp
  then have sf: "separator_free demo_env c" by (simp add: separator_free_lifetime[OF lt])
  have v: "bs_verify demo_env (signature c) (JStr ''77'') (JStr ''3'') (toString c)"
    by (simp add: c_def demo_env_def toString_def)
  have nv: "\<not> bs_verify demo_env (signature c0) (JStr ''77'') (JStr ''3'') (toString c0)"
    by (simp add: constructor_Inr(8)[OF c0] demo_env_def)
  from C6_accept[where E = demo_env and c = c0 and N = "JStr ''77''" and E' = "JStr ''3''"
      and randInt = "\<lambda>i. i mod 2"] nv
  have rej: "acceptCoin demo_env (\<lambda>i. i mod 2) (JStr ''77'') (JStr ''3'') c0
           = Inl (Error ''Invalid coin signature'')"
    by blast
  from C6_accept[where E = demo_env and c = c and N = "JStr ''77''" and E' = "JStr ''3''"
      and randInt = "\<lambda>i. i mod 2" and purchaser = "JStr ''alice''" and amt = "JNum 20"
      and n = "JStr ''77''" and e = "JStr ''3''" and ?c0.0 = c0] c0 lt sf v
  obtain ris where r: "acceptCoin demo_env (\<lambda>i. i mod 2) (JStr ''77'') (JStr ''3'') c = Inr ris"
    "length ris = COIN_RIS_LENGTH"
    "\<forall>i<COIN_RIS_LENGTH.
        ris ! i = toString_hex (if i mod 2 = 0 then leftIdent c ! i else rightIdent c ! i)"
    by blast
  have "(0::nat) < COIN_RIS_LENGTH" "(1::nat) < COIN_RIS_LENGTH"
    by (simp_all add: COIN_RIS_LENGTH_def)
  with r(3) have "ris ! 0 = toString_hex (leftIdent c ! 0)" "ris ! 1 = toString_hex (rightIdent c ! 1)"
    by force+
  with c0 rej u sf v r(1,2) show ?thesis by blast
qed

text \<open>
  The coin of amount \<open>-5\<close>, signed by the bank and unblinded, has a signature that the
  library accepts, and \<^verbatim>\<open>acceptCoin\<close> fails on it with a hash mismatch at position 0.
\<close>

theorem C6_counterexample:
  "\<exists>c0 c. Coin_constructor demo_env (JStr ''alice'') (JNum (- 5)) (JStr ''77'') (JStr ''3'') = Inr c0
     \<and> unblind demo_env (c0\<lparr>signature := signCoin demo_env (blinded c0)\<rparr>) = Inr c
     \<and> bs_verify demo_env (signature c) (JStr ''77'') (JStr ''3'') (toString c)
     \<and> acceptCoin demo_env (\<lambda>i. 0) (JStr ''77'') (JStr ''3'') c
          = Inl (Error ''RIS hash mismatch at position 0'')"
proof -
  obtain c0 where c0: "Coin_constructor demo_env (JStr ''alice'') (JNum (- 5)) (JStr ''77'') (JStr ''3'') = Inr c0"
    using demo_constructed[of "JStr ''alice''" "JNum (- 5)"] by auto
  define c where "c = c0\<lparr>signature := JStr (coinString c0)\<rparr>"
  have u: "unblind demo_env (c0\<lparr>signature := signCoin demo_env (blinded c0)\<rparr>) = Inr c"
    by (simp add: demo_spendable[OF c0] c_def)
  have v: "bs_verify demo_env (signature c) (JStr ''77'') (JStr ''3'') (toString c)"
    by (simp add: c_def demo_env_def toString_def)
  have p: "parseCoin (toString c) = Inr ([''c0ffee''], map (hash demo_env) (leftIdent c0))"
    using demo_negative_amount_parse(2)[OF c0] by (simp add: c_def toString_def)
  have len: "length (leftIdent c) = COIN_RIS_LENGTH" "length (rightIdent c) = COIN_RIS_LENGTH"
    using constructor_lengths[OF c0] by (simp_all add: c_def)
  have z: "0 < COIN_RIS_LENGTH" by (simp add: COIN_RIS_LENGTH_def)
  obtain key ct where pad: "ident_pad demo_env (JStr ''alice'') 0 = (key, ct)"
    by (cases "ident_pad demo_env (JStr ''alice'') 0") auto
  then have "leftIdent c0 ! 0 = key"
    using z by (simp add: constructor_Inr(1)[OF c0])
  moreover have "length key = 11"
    using makeOTP_props(1)[OF pad[unfolded ident_pad_def]] by (simp add: IDENT_STR_def)
  ultimately have "length (hash demo_env (disclosed (\<lambda>i. 0) c 0)) = 22"
    by (simp add: disclosed_def c_def demo_env_def length_toString_hex)
  then have "hash demo_env (disclosed (\<lambda>i. 0) c 0) \<noteq> ''c0ffee''" by auto
  moreover have "decimal 0 = ''0''" by code_simp
  ultimately have "acceptCoin demo_env (\<lambda>i. 0) (JStr ''77'') (JStr ''3'') c
          = Inl (Error ''RIS hash mismatch at position 0'')"
    using v by (simp add: acceptCoin_def p accept_loop_step[OF z len] nth_opt_def)
  with c0 u v show ?thesis by blast
qed

text \<open>
  C7, with the test for the tag that the code makes: \<^verbatim>\<open>determineCheater\<close> returns an outcome for all reports and never throws;
  an index where the second report has no element, where the two decoded values
  differ in length, or whose decoded string does not start with the tag \<^verbatim>\<open>IDENT\<close> is
  passed over; and the outcome is \<open>Undetermined\<close> exactly when the reports differ and no
  index decodes to a string that starts with the tag.
\<close>

theorem C7_reconcile_never_fails:
  "(\<exists>oc. determineCheater gid ris1 ris2 = Inr oc)
   \<and> (\<forall>i<length ris1. \<not> tagged ris1 ris2 i \<longrightarrow>
         reveal_loop ris1 ris2 i = reveal_loop ris1 ris2 (Suc i))
   \<and> (determineCheater gid ris1 ris2 = Inr Undetermined \<longleftrightarrow>
         ris1 \<noteq> ris2 \<and> (\<forall>i<length ris1. \<not> tagged ris1 ris2 i))"
proof (intro conjI)
  show "\<exists>oc. determineCheater gid ris1 ris2 = Inr oc"
    by (simp add: determineCheater_def)
  show "\<forall>i<length ris1. \<not> tagged ris1 ris2 i \<longrightarrow>
         reveal_loop ris1 ris2 i = reveal_loop ris1 ris2 (Suc i)"
    by (simp add: reveal_loop_skip)
  show "determineCheater gid ris1 ris2 = Inr Undetermined \<longleftrightarrow>
         ris1 \<noteq> ris2 \<and> (\<forall>i<length ris1. \<not> tagged ris1 ris2 i)"
    by (simp add: determineCheater_def JSON_stringify_inj reveal_loop_Undetermined_iff)
qed

theorem C7_witness:
  "determineCheater ''c0ffee'' [''00'', ''zz'', ''0102''] [''0000'', ''00''] = Inr Undetermined
   \<and> reveal_loop [''00'', ''zz'', ''0102''] [''0000'', ''00''] 0
       = reveal_loop [''00'', ''zz'', ''0102''] [''0000'', ''00''] (Suc 0)"
proof -
  let ?r1 = "[''00'', ''zz'', ''0102'']" and ?r2 = "[''0000'', ''00'']"
  have t: "\<not> tagged ?r1 ?r2 0" "\<not> tagged ?r1 ?r2 1" "\<not> tagged ?r1 ?r2 2"
    by code_simp+
  have a: "\<forall>i<length ?r1. \<not> tagged ?r1 ?r2 i"
  proof (intro allI impI)
    fix i assume "i < length ?r1"
    then have "i = 0 \<or> i = 1 \<or> i = 2" by auto
    with t show "\<not> tagged ?r1 ?r2 i" by blast
  qed
  note k = C7_reconcile_never_fails[of "''c0ffee''" ?r1 ?r2]
  from k a have "determineCheater ''c0ffee'' ?r1 ?r2 = Inr Undetermined" by simp
  moreover from k t(1) have "reveal_loop ?r1 ?r2 0 = reveal_loop ?r1 ?r2 (Suc 0)" by simp
  ultimately show ?thesis by simp
qed

text \<open>
  A report that decodes to \<^verbatim>\<open>IDENTX\<close>: not a well-formed identity string, since it has no
  colon after the tag, and still the outcome is not \<open>Undetermined\<close>.
\<close>

theorem C7_counterexample:
  "\<not> well_formed_identity (decoded [''4944454e5458''] [''000000000000''] 0)
   \<and> determineCheater ''c0ffee'' [''4944454e5458''] [''000000000000''] = Inr (PurchaserCheated None)"
  by code_simp

text \<open>
  C8: through the life of a constructed coin both identity arrays have \<open>K\<close> entries,
  and \<^verbatim>\<open>getRis(isLeft, i)\<close> throws the out-of-bounds error exactly when \<open>i < 0\<close> or
  \<open>i \<ge> K\<close>, and otherwise returns \<^verbatim>\<open>leftIdent[i]\<close> when \<^verbatim>\<open>isLeft\<close> holds and
  \<^verbatim>\<open>rightIdent[i]\<close> when it does not.
\<close>

theorem C8_getRis:
  assumes "Coin_constructor E purchaser amt n e = Inr c0" and "lifetime E c0 c"
  shows "length (leftIdent c) = COIN_RIS_LENGTH \<and> length (rightIdent c) = COIN_RIS_LENGTH \<and>
         getRis c isLeft i =
           (if i < 0 \<or> int COIN_RIS_LENGTH \<le> i
            then Inl (Error (''RIS index out of bounds: '' @ decimal_int i))
            else Inr (Some (if isLeft then leftIdent c ! nat i else rightIdent c ! nat i)))"
  using constructor_lengths[OF assms(1)] lifetime_fields[OF assms(2)]
  by (auto simp: getRis_def nth_opt_def)

theorem C8_witness:
  "\<exists>c. Coin_constructor demo_env (JStr ''alice'') (JNum 20) (JStr ''77'') (JStr ''3'') = Inr c
     \<and> getRis c True (- 1) = Inl (Error ''RIS index out of bounds: -1'')
     \<and> getRis c False 20 = Inl (Error ''RIS index out of bounds: 20'')
     \<and> getRis c True 0 = Inr (Some (leftIdent c ! 0))
     \<and> getRis c False 19 = Inr (Some (rightIdent c ! 19))"
proof -
  obtain c where c: "Coin_constructor demo_env (JStr ''alice'') (JNum 20) (JStr ''77'') (JStr ''3'') = Inr c"
    using demo_constructed[of "JStr ''alice''" "JNum 20"] by auto
  have d1: "decimal_int (- 1) = ''-1''" and d20: "decimal_int 20 = ''20''"
    by code_simp+
  note g = C8_getRis[OF c lifetime.constructed, THEN conjunct2, THEN conjunct2]
  have "getRis c True (- 1) = Inl (Error ''RIS index out of bounds: -1'')"
    using g[of True "- 1"] by (simp add: d1)
  moreover have "getRis c False 20 = Inl (Error ''RIS index out of bounds: 20'')"
    using g[of False 20] by (simp add: d20 COIN_RIS_LENGTH_def)
  moreover have "getRis c True 0 = Inr (Some (leftIdent c ! 0))"
    using g[of True 0] by (simp add: COIN_RIS_LENGTH_def)
  moreover have "getRis c False 19 = Inr (Some (rightIdent c ! 19))"
    using g[of False 19] by (simp add: COIN_RIS_LENGTH_def)
  ultimately show ?thesis using c by blast
qed

text \<open>
  C9, with the falsiness of JavaScript: the constructor throws
  \<^verbatim>\<open>Missing required coin parameters\<close> when one of the four arguments is \<^verbatim>\<open>undefined\<close>,
  \<^verbatim>\<open>null\<close>, \<^verbatim>\<open>false\<close>, the number zero or the empty string, in every environment, also
  in one whose guid source and blinding throw. When none of the four is one of these
  values the guard is passed: what \<^verbatim>\<open>utils.makeGUID\<close> throws comes out as it is, and
  when it returns, the result is a coin or a wrapped failure of the coin's creation,
  never the error of the guard.
\<close>

theorem C9_falsy_parameters:
  "((\<exists>v \<in> set [purchaser, amt, n, e].
        v \<in> set [JUndefined, JNull, JBool False, JNum 0, JStr []]) \<longrightarrow>
      Coin_constructor E purchaser amt n e = Inl (Error ''Missing required coin parameters''))
   \<and> ((\<forall>v \<in> set [purchaser, amt, n, e].
          v \<notin> set [JUndefined, JNull, JBool False, JNum 0, JStr []]) \<longrightarrow>
        (\<forall>err. makeGUID E = Inl err \<longrightarrow> Coin_constructor E purchaser amt n e = Inl err)
        \<and> (\<forall>g. makeGUID E = Inr g \<longrightarrow>
              Coin_constructor E purchaser amt n e
                \<noteq> Inl (Error ''Missing required coin parameters'')))"
proof -
  have f: "falsy v \<longleftrightarrow> v \<in> set [JUndefined, JNull, JBool False, JNum 0, JStr []]" for v
    by (cases v) (auto simp: falsy_def)
  have g: "falsy purchaser \<or> falsy amt \<or> falsy n \<or> falsy e \<longleftrightarrow>
      (\<exists>v \<in> set [purchaser, amt, n, e].
          v \<in> set [JUndefined, JNull, JBool False, JNum 0, JStr []])"
    unfolding f by auto
  show ?thesis
  proof (intro conjI impI allI)
    assume "\<exists>v \<in> set [purchaser, amt, n, e].
        v \<in> set [JUndefined, JNull, JBool False, JNum 0, JStr []]"
    with g have "falsy purchaser \<or> falsy amt \<or> falsy n \<or> falsy e" by blast
    then show "Coin_constructor E purchaser amt n e = Inl (Error ''Missing required coin parameters'')"
      by (simp add: Coin_constructor_def)
  next
    fix err
    assume "\<forall>v \<in> set [purchaser, amt, n, e].
          v \<notin> set [JUndefined, JNull, JBool False, JNum 0, JStr []]"
      and "makeGUID E = Inl err"
    with g have "\<not> (falsy purchaser \<or> falsy amt \<or> falsy n \<or> falsy e)" "makeGUID E = Inl err"
      by blast+
    then show "Coin_constructor E purchaser amt n e = Inl err"
      by (simp add: Coin_constructor_def)
  next
    fix gd
    assume "\<forall>v \<in> set [purchaser, amt, n, e].
          v \<notin> set [JUndefined, JNull, JBool False, JNum 0, JStr []]"
      and "makeGUID E = Inr gd"
    with g have "\<not> (falsy purchaser \<or> falsy amt \<or> falsy n \<or> falsy e)" "makeGUID E = Inr gd"
      by blast+
    then show "Coin_constructor E purchaser amt n e
                \<noteq> Inl (Error ''Missing required coin parameters'')"
      by (simp add: Coin_constructor_def Let_def split: sum.splits prod.splits)
  qed
qed

theorem C9_witness:
  "Coin_constructor demo_env JUndefined (JNum 20) (JStr ''77'') (JStr ''3'')
     = Inl (Error ''Missing required coin parameters'')
   \<and> Coin_constructor demo_env (JStr []) (JNum 20) (JStr ''77'') (JStr ''3'')
     = Inl (Error ''Missing required coin parameters'')
   \<and> Coin_constructor demo_env (JStr ''alice'') (JNum 0) (JStr ''77'') (JStr ''3'')
     = Inl (Error ''Missing required coin parameters'')
   \<and> Coin_constructor demo_env (JStr ''alice'') (JNum 20) JNull (JStr ''3'')
     = Inl (Error ''Missing required coin parameters'')
   \<and> Coin_constructor demo_env (JStr ''alice'') (JNum 20) (JStr ''77'') (JBool False)
     = Inl (Error ''Missing required coin parameters'')
   \<and> Coin_constructor failing_env (JStr ''alice'') (JNum 0) (JStr ''77'') (JStr ''3'')
     = Inl (Error ''Missing required coin parameters'')
   \<and> Coin_constructor failing_env (JStr ''alice'') (JNum 20) (JStr ''77'') (JStr ''3'')
     = Inl (Error ''no entropy'')
   \<and> Coin_constructor demo_env (JStr ''alice'') (JNum 20) (JStr ''77'') (JStr ''3'')
     \<noteq> Inl (Error ''Missing required coin parameters'')"
proof -
  note k = C9_falsy_parameters
  have "Coin_constructor demo_env JUndefined (JNum 20) (JStr ''77'') (JStr ''3'')
     = Inl (Error ''Missing required coin parameters'')"
    using k[of JUndefined "JNum 20" "JStr ''77''" "JStr ''3''" demo_env] by simp
  moreover have "Coin_constructor demo_env (JStr []) (JNum 20) (JStr ''77'') (JStr ''3'')
     = Inl (Error ''Missing required coin parameters'')"
    using k[of "JStr []" "JNum 20" "JStr ''77''" "JStr ''3''" demo_env] by simp
  moreover have "Coin_constructor demo_env (JStr ''alice'') (JNum 0) (JStr ''77'') (JStr ''3'')
     = Inl (Error ''Missing required coin parameters'')"
    using k[of "JStr ''alice''" "JNum 0" "JStr ''77''" "JStr ''3''" demo_env] by simp
  moreover have "Coin_constructor demo_env (JStr ''alice'') (JNum 20) JNull (JStr ''3'')
     = Inl (Error ''Missing required coin parameters'')"
    using k[of "JStr ''alice''" "JNum 20" JNull "JStr ''3''" demo_env] by simp
  moreover have "Coin_constructor demo_env (JStr ''alice'') (JNum 20) (JStr ''77'') (JBool False)
     = Inl (Error ''Missing required coin parameters'')"
    using k[of "JStr ''alice''" "JNum 20" "JStr ''77''" "JBool False" demo_env] by simp
  moreover have "Coin_constructor failing_env (JStr ''alice'') (JNum 0) (JStr ''77'') (JStr ''3'')
     = Inl (Error ''Missing required coin parameters'')"
    using k[of "JStr ''alice''" "JNum 0" "JStr ''77''" "JStr ''3''" failing_env] by simp
  moreover have "Coin_constructor failing_env (JStr ''alice'') (JNum 20) (JStr ''77'') (JStr ''3'')
     = Inl (Error ''no entropy'')"
    using k[of "JStr ''alice''" "JNum 20" "JStr ''77''" "JStr ''3''" failing_env]
    by (simp add: failing_env_def)
  moreover have "Coin_constructor demo_env (JStr ''alice'') (JNum 20) (JStr ''77'') (JStr ''3'')
     \<noteq> Inl (Error ''Missing required coin parameters'')"
    using k[of "JStr ''alice''" "JNum 20" "JStr ''77''" "JStr ''3''" demo_env]
    by (simp add: demo_env_def)
  ultimately show ?thesis by blast
qed

text \<open>
  A zero that is not falsy: the modulus as the decimal string \<^verbatim>\<open>0\<close>, the form in which
  \<^verbatim>\<open>driver.js\<close> passes \<^verbatim>\<open>N\<close> and \<^verbatim>\<open>E\<close>, and an amount that is a big-integer object of
  value zero. Both pass the guard, and the constructor returns a coin.
\<close>

theorem C9_counterexample:
  "(\<exists>c. Coin_constructor demo_env (JStr ''alice'') (JNum 20) (JStr ''0'') (JStr ''3'') = Inr c)
   \<and> (\<exists>c. Coin_constructor demo_env (JStr ''alice'') (JObject 0) (JStr ''77'') (JStr ''3'') = Inr c)"
proof
  show "\<exists>c. Coin_constructor demo_env (JStr ''alice'') (JNum 20) (JStr ''0'') (JStr ''3'') = Inr c"
    by (rule constructor_succeeds) (simp_all add: demo_env_def)
  show "\<exists>c. Coin_constructor demo_env (JStr ''alice'') (JObject 0) (JStr ''77'') (JStr ''3'') = Inr c"
    by (rule constructor_succeeds) (simp_all add: demo_env_def)
qed

text \<open>
  C10: after a successful \<^verbatim>\<open>unblind\<close> the signature is truthy, so a second \<^verbatim>\<open>unblind\<close>
  passes the guard and applies the library's unblinding, with the same \<^verbatim>\<open>n\<close> and the same
  blinding factor, to the signature that is already unblinded.
\<close>

theorem C10_unblind_twice:
  assumes "unblind E c = Inr c'"
  shows "truthy (signature c')
         \<and> unblind E c' =
             (case bs_unblind E (signature c') (coin_n c) (blindingFactor c) of
                Inl err \<Rightarrow> Inl (Error (''Unblinding failed: '' @ message err))
              | Inr s \<Rightarrow>
                  if falsy s then Inl (Error ''Unblinding failed: Unblinding failed'')
                  else Inr (c'\<lparr>signature := s\<rparr>))"
  using unblind_Inr(4)[OF assms] unblind_fields(5,9)[OF assms]
  by (simp add: unblind_def unblind_apply_def falsy_def split: sum.splits)

theorem C10_witness:
  "\<exists>c0 c1 c2. Coin_constructor demo_env (JStr ''alice'') (JNum 20) (JStr ''77'') (JStr ''3'') = Inr c0
     \<and> unblind demo_env (c0\<lparr>signature := signCoin demo_env (blinded c0)\<rparr>) = Inr c1
     \<and> unblind demo_env c1 = Inr c2
     \<and> signature c1 = JStr (toString c0)
     \<and> signature c2 = JStr (tl (toString c0))
     \<and> signature c2 \<noteq> signature c1"
proof -
  obtain c0 where c0: "Coin_constructor demo_env (JStr ''alice'') (JNum 20) (JStr ''77'') (JStr ''3'') = Inr c0"
    using demo_constructed[of "JStr ''alice''" "JNum 20"] by auto
  define c1 where "c1 = c0\<lparr>signature := JStr (coinString c0)\<rparr>"
  have u: "unblind demo_env (c0\<lparr>signature := signCoin demo_env (blinded c0)\<rparr>) = Inr c1"
    by (simp add: demo_spendable[OF c0] c1_def)
  obtain rest where s: "coinString c0 = CHR ''E'' # CHR ''L'' # rest"
    by (simp add: constructor_Inr(3)[OF c0] BANK_STR_def)
  from C10_unblind_twice[OF u]
  have "unblind demo_env c1 = Inr (c1\<lparr>signature := JStr (tl (coinString c0))\<rparr>)"
    by (simp add: c1_def demo_env_def falsy_def s)
  with c0 u s show ?thesis
    by (simp add: c1_def toString_def)
qed

end
